theory Spec2Isabelle
  imports Main
begin

section \<open>Python values, exceptions and the world the script acts on\<close>

text \<open>
  The script \<^verbatim>\<open>Photobooth.py\<close> is a sequence of calls to the camera, the GPIO pins, the
  imaging library and the file system. Each function of the script becomes a function on
  an explicit \<open>world\<close>; everything the script does to the hardware is appended to the
  world's \<open>trace\<close>, in the order in which the script does it.
\<close>

datatype error = KeyboardInterrupt | Exception string | SystemExit

text \<open>
  The values the script stores in its overlay variables: \<^verbatim>\<open>False\<close> (the initial
  \<^verbatim>\<open>prev_overlay\<close>), the integer \<^verbatim>\<open>-1\<close> (the "no overlay" sentinel) and
  overlay objects, identified by the number of overlays created before them.
\<close>

datatype pyval = PyFalse | PyInt int | Overlay nat

fun truthy :: "pyval \<Rightarrow> bool" where
  "truthy PyFalse = False"
| "truthy (PyInt n) = (n \<noteq> 0)"
| "truthy (Overlay h) = True"

datatype level = INFO | WARNING | ERROR

text \<open>
  \<open>AddOverlay h src buf win\<close>: the overlay \<open>h\<close> is added, its pixels those of the image
  file \<open>src\<close> pasted into a buffer of size \<open>buf\<close>, shown in a window of size \<open>win\<close>.
  Durations of \<open>Sleep\<close> are in milliseconds.
\<close>

datatype event =
    Log level string
  | GpioSetup
  | CameraInit
  | StartPreview
  | StopPreview
  | AddOverlay nat string "nat \<times> nat" "nat \<times> nat"
  | RemoveOverlay nat
  | SetAlpha nat nat
  | Led bool
  | Sleep nat
  | Annotate string
  | Capture string
  | GpioCleanup
  | SysExit

record overlay =
  handle :: nat
  source :: string
  buffer :: "nat \<times> nat"
  window :: "nat \<times> nat"
  layer :: int
  oid :: int
  alpha :: nat

record datetime =
  year :: nat
  month :: nat
  day :: nat
  hour :: nat
  minute :: nat
  second :: nat
  microsecond :: nat

text \<open>
  What the script reads from its surroundings and never writes: its own directory, the
  alpha a new overlay gets from the camera library, the level of the button pin at start,
  whether a camera is attached, the listing of \<^verbatim>\<open>/media/pi/\<close> (\<open>None\<close> when
  \<^verbatim>\<open>os.listdir\<close> raises), which directories \<^verbatim>\<open>os.makedirs\<close> can create, which
  files the camera can capture to, and the wall clock.
\<close>

record env =
  script_dir :: string
  default_alpha :: nat
  button_low :: bool
  camera_present :: bool
  media :: "string list option"
  makedirs_ok :: "string \<Rightarrow> bool"
  capture_ok :: "string \<Rightarrow> bool"
  now :: datetime

text \<open>
  What the script changes: the trace, the overlays on screen, the handle of the next
  overlay, the readable image files with their pixel sizes, the directories that exist,
  the photos written, the annotation, the LED and the preview.

  Of the calls into the libraries, those on which the script's behaviour branches can fail
  in the model: opening an image, removing an overlay, assigning the alpha of an overlay,
  listing the media directory, creating a directory, capturing a photo, and the wait for an
  edge, during which the operator may interrupt. The other calls (adding an overlay,
  setting the annotation, driving the LED, starting and stopping the preview) are taken to
  succeed. Sleeping is recorded in the trace; it does not move the wall clock of \<open>env\<close>.
\<close>

record world =
  env :: env
  trace :: "event list"
  overlays :: "overlay list"
  next_handle :: nat
  images :: "string \<Rightarrow> (nat \<times> nat) option"
  dirs :: "string \<Rightarrow> bool"
  photos :: "string list"
  annotate_text :: string
  led :: bool
  preview :: bool

datatype 'a result =
    is_Ok: Ok (value_of: 'a) (world_of: world)
  | Raised (error_of: error) (world_of: world)

definition and_then :: "'a result \<Rightarrow> ('a \<Rightarrow> world \<Rightarrow> 'b result) \<Rightarrow> 'b result" where
  "and_then m f = (case m of Ok a w \<Rightarrow> f a w | Raised e w \<Rightarrow> Raised e w)"

definition emit :: "event list \<Rightarrow> world \<Rightarrow> world" where
  "emit evs w = w\<lparr>trace := trace w @ evs\<rparr>"

definition logging :: "level \<Rightarrow> string \<Rightarrow> world \<Rightarrow> world" where
  "logging lvl msg w = emit [Log lvl msg] w"

definition sleep :: "nat \<Rightarrow> world \<Rightarrow> world" where
  "sleep ms w = emit [Sleep ms] w"

section \<open>Strings: \<^verbatim>\<open>str\<close>, \<^verbatim>\<open>split\<close>, \<^verbatim>\<open>replace\<close>, \<^verbatim>\<open>os.path.join\<close>\<close>

definition digit_char :: "nat \<Rightarrow> char" where
  "digit_char n = ''0123456789'' ! (n mod 10)"

function str_nat :: "nat \<Rightarrow> string" where
  "str_nat n = (if n < 10 then [digit_char n] else str_nat (n div 10) @ [digit_char n])"
  by pat_completeness auto
termination
  by (relation "measure id") auto

declare str_nat.simps [simp del]

definition str_int :: "int \<Rightarrow> string" where
  "str_int k = (if k < 0 then CHR ''-'' # str_nat (nat (- k)) else str_nat (nat k))"

text \<open>\<^verbatim>\<open>"%0<width>d" % n\<close> for a natural number.\<close>

definition zero_pad :: "nat \<Rightarrow> nat \<Rightarrow> string" where
  "zero_pad width n = replicate (width - length (str_nat n)) CHR ''0'' @ str_nat n"

text \<open>
  \<^verbatim>\<open>str(datetime)\<close> of a naive datetime: ISO format with a space as separator, and the
  microseconds only when they are not zero.
\<close>

definition str_datetime :: "datetime \<Rightarrow> string" where
  "str_datetime t =
     zero_pad 4 (year t) @ ''-'' @ zero_pad 2 (month t) @ ''-'' @ zero_pad 2 (day t) @ '' '' @
     zero_pad 2 (hour t) @ '':'' @ zero_pad 2 (minute t) @ '':'' @ zero_pad 2 (second t) @
     (if microsecond t \<noteq> 0 then ''.'' @ zero_pad 6 (microsecond t) else [])"

text \<open>\<^verbatim>\<open>s.split(c)\<close> for a separator of one character; the result is never empty.\<close>

fun split_chr :: "char \<Rightarrow> string \<Rightarrow> string list" where
  "split_chr c [] = [[]]"
| "split_chr c (x # xs) =
     (if x = c then [] # split_chr c xs
      else (case split_chr c xs of [] \<Rightarrow> [[x]] | p # ps \<Rightarrow> (x # p) # ps))"

text \<open>\<^verbatim>\<open>s.replace(c, new)\<close> for a pattern \<open>c\<close> of one character.\<close>

definition replace_chr :: "char \<Rightarrow> string \<Rightarrow> string \<Rightarrow> string" where
  "replace_chr c new s = concat (map (\<lambda>x. if x = c then new else [x]) s)"

text \<open>\<^verbatim>\<open>os.path.join(a, b)\<close> on POSIX.\<close>

definition path_join :: "string \<Rightarrow> string \<Rightarrow> string" where
  "path_join a b =
     (if b \<noteq> [] \<and> hd b = CHR ''/'' then b
      else if a = [] \<or> last a = CHR ''/'' then a @ b
      else a @ ''/'' @ b)"

section \<open>The overlay functions\<close>

text \<open>The size of the padded image \<^verbatim>\<open>pad\<close> that \<^verbatim>\<open>overlay_image\<close> builds.\<close>

definition pad_size :: "nat \<times> nat \<Rightarrow> nat \<times> nat" where
  "pad_size sz = (((fst sz + 31) div 32) * 32, ((snd sz + 15) div 16) * 16)"

text \<open>
  \<^verbatim>\<open>camera.remove_overlay\<close>: the camera library raises when the value is not one of its
  live overlays; otherwise the overlay leaves the screen.
\<close>

definition camera_remove_overlay :: "pyval \<Rightarrow> world \<Rightarrow> overlay result" where
  "camera_remove_overlay v w =
     (case v of
        Overlay h \<Rightarrow>
          (case find (\<lambda>x. handle x = h) (overlays w) of
             None \<Rightarrow> Raised (Exception ''PiCameraValueError'') w
           | Some ov \<Rightarrow>
               Ok ov (emit [RemoveOverlay h]
                           (w\<lparr>overlays := filter (\<lambda>x. handle x \<noteq> h) (overlays w)\<rparr>)))
      | _ \<Rightarrow> Raised (Exception ''PiCameraValueError'') w)"

definition remove_overlay :: "pyval \<Rightarrow> world \<Rightarrow> unit result" where
  "remove_overlay ov w =
     (if ov \<noteq> PyInt (- 1) then
        and_then (camera_remove_overlay ov w)
          (\<lambda>x w1. Ok () (logging INFO (''Removed overlay '' @ str_int (oid x)) w1))
      else Ok () w)"

text \<open>
  \<^verbatim>\<open>overlay_image(image_name, duration, layer)\<close>. \<^verbatim>\<open>Image.open\<close> raises when the file
  is not a readable image; \<open>images\<close> gives the pixel size of the readable ones.
  \<open>duration\<close> is in seconds.
\<close>

definition overlay_image :: "string \<Rightarrow> int \<Rightarrow> int \<Rightarrow> world \<Rightarrow> pyval result" where
  "overlay_image image_name duration lay w =
     (case images w (path_join (script_dir (env w)) image_name) of
        None \<Rightarrow> Raised (Exception ''IOError'') w
      | Some sz \<Rightarrow>
          (let h = next_handle w;
               src = path_join (script_dir (env w)) image_name;
               ov = \<lparr>handle = h, source = src, buffer = pad_size sz, window = sz, layer = lay,
                      oid = lay, alpha = default_alpha (env w)\<rparr>;
               w1 = emit [AddOverlay h src (pad_size sz) sz]
                      (w\<lparr>overlays := overlays w @ [ov], next_handle := Suc h\<rparr>);
               w2 = logging INFO (''Created overlay '' @ image_name) w1
           in if duration > 0 then
                and_then (remove_overlay (Overlay h) (sleep (nat duration * 1000) w2))
                  (\<lambda>_ w3. Ok (PyInt (- 1)) w3)
              else Ok (Overlay h) w2))"

section \<open>Output path and file name\<close>

text \<open>
  The loop of \<^verbatim>\<open>set_default_path\<close> over the listing, with the variable
  \<^verbatim>\<open>photo_path\<close> as accumulator.
\<close>

fun scan_mounts :: "string list \<Rightarrow> string \<Rightarrow> world \<Rightarrow> string \<times> world" where
  "scan_mounts [] photo_path w = (photo_path, w)"
| "scan_mounts (d # ds) photo_path w =
     (let p = path_join ''/media/pi/'' d @ ''/photobooth/'' in
      if \<not> dirs w p then
        (if makedirs_ok (env w) p then
           scan_mounts ds p (logging INFO ''creating new folder'' (w\<lparr>dirs := (dirs w)(p := True)\<rparr>))
         else scan_mounts ds [] (logging INFO ''error creating dir'' w))
      else scan_mounts ds p w)"

definition set_default_path :: "world \<Rightarrow> string result" where
  "set_default_path w =
     (case media (env w) of
        None \<Rightarrow> Raised (Exception ''OSError'') w
      | Some ds \<Rightarrow>
          (let (p, w1) = scan_mounts ds [] w;
               photo_path = (if p = [] then script_dir (env w1) @ ''/photobooth/'' else p)
           in Ok photo_path (logging INFO (''Saving to: '' @ photo_path) w1)))"

definition set_filename :: "world \<Rightarrow> string" where
  "set_filename w =
     replace_chr CHR '':'' ''-''
       (replace_chr CHR '' '' ''_'' (hd (split_chr CHR ''.'' (str_datetime (now (env w))))))"

section \<open>Capture and playback\<close>

definition photo_screen :: "int \<Rightarrow> world \<Rightarrow> unit result" where
  "photo_screen photo_number w =
     and_then (overlay_image (''Assets/get_ready_'' @ str_int photo_number @ ''.png'') 2 3 w)
       (\<lambda>get_ready_image w1. remove_overlay get_ready_image w1)"

text \<open>The countdown loop of \<^verbatim>\<open>take_photo\<close>, over \<^verbatim>\<open>range(3, 0, -1)\<close>.\<close>

fun countdown :: "int list \<Rightarrow> world \<Rightarrow> world" where
  "countdown [] w = w"
| "countdown (counter # cs) w =
     (let text = ''             ...'' @ str_int counter
      in countdown cs (sleep 1000 (emit [Annotate text] (w\<lparr>annotate_text := text\<rparr>))))"

text \<open>
  \<^verbatim>\<open>camera.capture(filename)\<close>: when the camera can write the file, the file is a
  readable image of the camera's resolution, which the script sets to 1920 x 1120.
\<close>

definition camera_capture :: "string \<Rightarrow> world \<Rightarrow> unit result" where
  "camera_capture filename w =
     (let w1 = emit [Capture filename] w in
      if capture_ok (env w) filename then
        Ok () (w1\<lparr>images := (images w1)(filename \<mapsto> (1920, 1120)),
                  photos := photos w1 @ [filename]\<rparr>)
      else Raised (Exception ''PiCameraError'') w1)"

definition take_photo :: "int \<Rightarrow> string \<Rightarrow> string \<Rightarrow> world \<Rightarrow> unit result" where
  "take_photo photo_number filepath filename_prefix w =
     (let filename = filepath @ filename_prefix @ ''_'' @ str_int photo_number @ ''of3.jpg'';
          w1 = countdown [3, 2, 1] w;
          w2 = emit [Annotate []] (w1\<lparr>annotate_text := []\<rparr>)
      in and_then (camera_capture filename w2)
           (\<lambda>_ w3. Ok () (logging INFO (''Photo '' @ str_int photo_number @ '' saved'') w3)))"

text \<open>
  The loop of \<^verbatim>\<open>playback\<close> over \<^verbatim>\<open>range(1, total_pics + 1)\<close>, with the variable
  \<^verbatim>\<open>prev_overlay\<close> as accumulator.
\<close>

fun playback_loop ::
  "int list \<Rightarrow> int \<Rightarrow> string \<Rightarrow> string \<Rightarrow> pyval \<Rightarrow> world \<Rightarrow> pyval result" where
  "playback_loop [] total_pics filepath_prefix filename_prefix prev_overlay w = Ok prev_overlay w"
| "playback_loop (photo_number # ns) total_pics filepath_prefix filename_prefix prev_overlay w =
     (let filename = filepath_prefix @ filename_prefix @ ''_'' @ str_int photo_number @ ''of'' @
                     str_int total_pics @ ''.jpg''
      in and_then (overlay_image filename 0 (3 + total_pics) w)
           (\<lambda>this_overlay w1.
              and_then (if truthy prev_overlay then remove_overlay prev_overlay w1 else Ok () w1)
                (\<lambda>_ w2. playback_loop ns total_pics filepath_prefix filename_prefix this_overlay
                           (sleep 2000 w2))))"

definition playback :: "int \<Rightarrow> string \<Rightarrow> string \<Rightarrow> world \<Rightarrow> unit result" where
  "playback total_pics filepath_prefix filename_prefix w =
     and_then (overlay_image ''Assets/processing.png'' 2 3 w)
       (\<lambda>_ w1.
          and_then (playback_loop [1..total_pics] total_pics filepath_prefix filename_prefix PyFalse w1)
            (\<lambda>prev_overlay w2.
               and_then (remove_overlay prev_overlay w2)
                 (\<lambda>_ w3.
                    and_then (overlay_image ''Assets/all_done.png'' 2 4 w3)
                      (\<lambda>_ w4. Ok () w4))))"

section \<open>The main loop\<close>

text \<open>
  The local variables of \<^verbatim>\<open>main\<close> that live across iterations of its loop. The
  variable \<open>i\<close> is both the idle tick counter and the loop variable of the three shots.
\<close>

record locals =
  i :: int
  intro_image_1 :: pyval
  intro_image_2 :: pyval

text \<open>
  What one call of \<^verbatim>\<open>GPIO.wait_for_edge\<close> gives: \<^verbatim>\<open>None\<close> after the timeout, the
  channel when the edge came, or the operator's interrupt raised while waiting.
\<close>

datatype edge = Timeout | Detected | Interrupted

definition blink_speed :: int where
  "blink_speed = 10"

text \<open>Assigning \<^verbatim>\<open>.alpha\<close>: only a live overlay object has the attribute.\<close>

definition set_alpha :: "pyval \<Rightarrow> nat \<Rightarrow> world \<Rightarrow> unit result" where
  "set_alpha v a w =
     (case v of
        Overlay h \<Rightarrow>
          (if h \<in> handle ` set (overlays w) then
             Ok () (emit [SetAlpha h a]
                      (w\<lparr>overlays := map (\<lambda>x. if handle x = h then x\<lparr>alpha := a\<rparr> else x)
                                         (overlays w)\<rparr>))
           else Raised (Exception ''AttributeError'') w)
      | _ \<Rightarrow> Raised (Exception ''AttributeError'') w)"

definition gpio_output :: "bool \<Rightarrow> world \<Rightarrow> world" where
  "gpio_output v w = emit [Led v] (w\<lparr>led := v\<rparr>)"

text \<open>
  The loop \<^verbatim>\<open>for i in range(3)\<close> of \<^verbatim>\<open>main\<close>: the pair is the variables \<open>i\<close> and
  \<open>frame\<close>.
\<close>

fun shots :: "int list \<Rightarrow> int \<times> int \<Rightarrow> string \<Rightarrow> string \<Rightarrow> world \<Rightarrow> (int \<times> int) result" where
  "shots [] v filepath filename w = Ok v w"
| "shots (x # xs) v filepath filename w =
     (let frame = snd v in
      and_then (photo_screen frame w)
        (\<lambda>_ w1.
           and_then (take_photo frame filepath filename w1)
             (\<lambda>_ w2. shots xs (x, frame + 1) filepath filename w2)))"

text \<open>What \<^verbatim>\<open>main\<close> does after the button was pressed, up to the end of the loop body.\<close>

definition session :: "locals \<Rightarrow> world \<Rightarrow> locals result" where
  "session l w =
     and_then (remove_overlay (intro_image_1 l) (logging INFO ''Button is pressed!'' w))
       (\<lambda>_ w1.
     and_then (remove_overlay (intro_image_2 l) w1)
       (\<lambda>_ w2.
     and_then (set_default_path w2)
       (\<lambda>filepath w3.
     (let filename = set_filename w3 in
      and_then (shots [0, 1, 2] (i l, 1) filepath filename w3)
       (\<lambda>v w4.
     and_then (playback 3 filepath filename w4)
       (\<lambda>_ w5.
     and_then (overlay_image ''Assets/intro_1.png'' 0 3 w5)
       (\<lambda>o1 w6.
     and_then (overlay_image ''Assets/intro_2.png'' 0 4 w6)
       (\<lambda>o2 w7. Ok (l\<lparr>i := fst v, intro_image_1 := o1, intro_image_2 := o2\<rparr>) w7))))))))"

text \<open>One iteration of the \<^verbatim>\<open>while True\<close> loop, given what the wait for the edge gives.\<close>

definition main_body :: "edge \<Rightarrow> locals \<Rightarrow> world \<Rightarrow> locals result" where
  "main_body photo_button_pressed l w =
     (case photo_button_pressed of
        Interrupted \<Rightarrow> Raised KeyboardInterrupt w
      | Timeout \<Rightarrow>
          (let l1 = l\<lparr>i := i l + 1\<rparr> in
           if i l1 = blink_speed then
             and_then (set_alpha (intro_image_2 l1) 255 w)
               (\<lambda>_ w1. Ok l1 (sleep 100 (gpio_output True w1)))
           else if i l1 = 2 * blink_speed then
             and_then (set_alpha (intro_image_2 l1) 0 w)
               (\<lambda>_ w1. Ok (l1\<lparr>i := 0\<rparr>) (sleep 100 (gpio_output False w1)))
           else Ok l1 (sleep 100 w))
      | Detected \<Rightarrow> session l w)"

text \<open>
  The loop never ends by itself. On a finite list of results of the wait it is run until
  the list is used up (\<open>Ok\<close>: the loop is waiting for the next edge) or an exception
  leaves it.
\<close>

fun main_loop :: "edge list \<Rightarrow> locals \<Rightarrow> world \<Rightarrow> locals result" where
  "main_loop [] l w = Ok l w"
| "main_loop (e # es) l w = and_then (main_body e l w) (\<lambda>l1 w1. main_loop es l1 w1)"

definition main :: "edge list \<Rightarrow> world \<Rightarrow> locals result" where
  "main es w =
     (let w1 = emit [StartPreview] ((logging INFO ''Main program started'' w)\<lparr>preview := True\<rparr>) in
      and_then (overlay_image ''Assets/intro_1.png'' 0 3 w1)
        (\<lambda>o1 w2.
           and_then (overlay_image ''Assets/intro_2.png'' 0 4 w2)
             (\<lambda>o2 w3. main_loop es \<lparr>i = 0, intro_image_1 = o1, intro_image_2 = o2\<rparr> w3)))"

section \<open>Start of the process and the handler around \<^verbatim>\<open>main\<close>\<close>

datatype outcome =
    is_Running: Running (locals_of: locals) (state_of: world)
  | Exited (state_of: world)

text \<open>The \<^verbatim>\<open>finally\<close> block.\<close>

definition cleanup :: "world \<Rightarrow> world" where
  "cleanup w =
     emit [StopPreview, GpioCleanup, SysExit] ((logging INFO ''End of session'' w)\<lparr>preview := False\<rparr>)"

text \<open>The \<^verbatim>\<open>try\<close> statement under \<^verbatim>\<open>if __name__ == "__main__"\<close>.\<close>

definition run_main :: "edge list \<Rightarrow> world \<Rightarrow> outcome" where
  "run_main es w =
     (case main es w of
        Ok l w1 \<Rightarrow> Running l w1
      | Raised KeyboardInterrupt w1 \<Rightarrow> Exited (cleanup (logging WARNING ''keyboard interrupt'' w1))
      | Raised (Exception msg) w1 \<Rightarrow>
          Exited (cleanup (logging ERROR (''Unexpected error: '' @ msg) w1))
      | Raised SystemExit w1 \<Rightarrow> Exited (cleanup w1))"

text \<open>
  The statements at module level, in order: GPIO set up (the LED pin low), the button
  guard, the camera, then the handler around \<^verbatim>\<open>main\<close>.
\<close>

definition program :: "edge list \<Rightarrow> world \<Rightarrow> outcome" where
  "program es w =
     (let w1 = emit [GpioSetup] (w\<lparr>led := False\<rparr>) in
      if button_low (env w1) then
        Exited (emit [SysExit] (logging INFO ''Exiting - the button was pressed during startup'' w1))
      else if \<not> camera_present (env w1) then
        Exited (emit [SysExit] (logging ERROR ''Error initializing the camera'' w1))
      else run_main es (emit [CameraInit] w1))"

section \<open>Observations\<close>

text \<open>The handles of the overlays on screen, oldest first.\<close>

definition live :: "world \<Rightarrow> nat list" where
  "live w = map handle (overlays w)"

definition alpha_of :: "nat \<Rightarrow> world \<Rightarrow> nat option" where
  "alpha_of h w = map_option alpha (find (\<lambda>x. handle x = h) (overlays w))"

text \<open>
  The part of the trace that is seen on the screen or written to disk: an overlay shown
  (with the image file it comes from) or hidden, a pause, a photo taken.
\<close>

datatype act = Show nat string | Hide nat | Hold nat | Shot string

fun act_of :: "event \<Rightarrow> act list" where
  "act_of (AddOverlay h src buf win) = [Show h src]"
| "act_of (RemoveOverlay h) = [Hide h]"
| "act_of (Sleep ms) = [Hold ms]"
| "act_of (Capture f) = [Shot f]"
| "act_of _ = []"

definition timeline :: "event list \<Rightarrow> act list" where
  "timeline tr = concat (map act_of tr)"

text \<open>The overlays on screen after a list of acts, starting from an empty screen.\<close>

definition shown :: "act list \<Rightarrow> nat list" where
  "shown acts =
     foldl (\<lambda>s a. case a of Show h src \<Rightarrow> s @ [h] | Hide h \<Rightarrow> removeAll h s | _ \<Rightarrow> s) [] acts"

section \<open>Concrete worlds\<close>

definition demo_env :: env where
  "demo_env =
     \<lparr>script_dir = ''/home/pi/Photobooth'', default_alpha = 255, button_low = False,
      camera_present = True, media = Some [''USB1''], makedirs_ok = (\<lambda>p. True),
      capture_ok = (\<lambda>p. True),
      now = \<lparr>year = 2024, month = 1, day = 1, hour = 12, minute = 0, second = 0,
             microsecond = 123456\<rparr>\<rparr>"

definition demo_images :: "string \<Rightarrow> (nat \<times> nat) option" where
  "demo_images =
     map_of [(''/home/pi/Photobooth/Assets/intro_1.png'', (1024, 600)),
             (''/home/pi/Photobooth/Assets/intro_2.png'', (1024, 600)),
             (''/home/pi/Photobooth/Assets/get_ready_1.png'', (1000, 590)),
             (''/home/pi/Photobooth/Assets/get_ready_2.png'', (1000, 590)),
             (''/home/pi/Photobooth/Assets/get_ready_3.png'', (1000, 590)),
             (''/home/pi/Photobooth/Assets/processing.png'', (1024, 600)),
             (''/home/pi/Photobooth/Assets/all_done.png'', (1024, 600))]"

text \<open>A kiosk before the process starts: one USB drive, all assets in place.\<close>

definition demo_world :: world where
  "demo_world =
     \<lparr>env = demo_env, trace = [], overlays = [], next_handle = 0, images = demo_images,
      dirs = (\<lambda>p. False), photos = [], annotate_text = [], led = False, preview = False\<rparr>"

text \<open>
  Two drives: the photobooth directory exists on the first, and cannot be created on the
  second.
\<close>

definition two_mounts_world :: world where
  "two_mounts_world =
     demo_world\<lparr>env := demo_env\<lparr>media := Some [''USB1'', ''USB2''], makedirs_ok := (\<lambda>p. False)\<rparr>,
                 dirs := (\<lambda>p. p = ''/media/pi/USB1/photobooth/'')\<rparr>"

text \<open>Two drives, and the photobooth directory can be created on both.\<close>

definition both_mounts_world :: world where
  "both_mounts_world = demo_world\<lparr>env := demo_env\<lparr>media := Some [''USB1'', ''USB2'']\<rparr>\<rparr>"

text \<open>The kiosk when \<open>main\<close> has shown the two intro overlays and enters its loop.\<close>

definition idle_locals :: locals where
  "idle_locals = \<lparr>i = 0, intro_image_1 = Overlay 0, intro_image_2 = Overlay 1\<rparr>"

definition idle_world :: world where
  "idle_world = world_of (main [] demo_world)"

text \<open>The kiosk after the three shots of a session, before the playback.\<close>

definition shot_world :: world where
  "shot_world =
     world_of (shots [0, 1, 2] (0, 1) ''/media/pi/USB1/photobooth/'' ''2024-01-01_12-00-00''
                 demo_world)"

text \<open>No image file can be read.\<close>

definition no_assets_world :: world where
  "no_assets_world = demo_world\<lparr>images := (\<lambda>p. None)\<rparr>"

text \<open>The button is held down when the process starts.\<close>

definition stuck_button_world :: world where
  "stuck_button_world = demo_world\<lparr>env := demo_env\<lparr>button_low := True\<rparr>\<rparr>"

text \<open>The button is not pressed, and no camera is attached.\<close>

definition no_camera_world :: world where
  "no_camera_world = demo_world\<lparr>env := demo_env\<lparr>camera_present := False\<rparr>\<rparr>"

section \<open>Basic facts\<close>

lemma and_then_Ok_iff:
  "(and_then m f = Ok b w') = (\<exists>a w1. m = Ok a w1 \<and> f a w1 = Ok b w')"
  by (cases m) (simp_all add: and_then_def)

lemma and_then_Raised_iff:
  "(and_then m f = Raised e w') =
     (m = Raised e w' \<or> (\<exists>a w1. m = Ok a w1 \<and> f a w1 = Raised e w'))"
  by (cases m) (auto simp: and_then_def)

lemma round_up_32:
  fixes n :: nat
  shows "32 dvd ((n + 31) div 32) * 32" and "n \<le> ((n + 31) div 32) * 32"
    and "32 dvd m \<Longrightarrow> n \<le> m \<Longrightarrow> ((n + 31) div 32) * 32 \<le> m"
proof -
  show "32 dvd ((n + 31) div 32) * 32" by simp
  show "n \<le> ((n + 31) div 32) * 32" by arith
  assume "32 dvd m" and le: "n \<le> m"
  then obtain k where k: "m = 32 * k" by (auto simp: dvd_def)
  have "(n + 31) div 32 \<le> (32 * k + 31) div 32"
    using le k by (intro div_le_mono) simp
  also have "(32 * k + 31) div 32 = k" by arith
  finally show "((n + 31) div 32) * 32 \<le> m" using k by simp
qed

lemma round_up_16:
  fixes n :: nat
  shows "16 dvd ((n + 15) div 16) * 16" and "n \<le> ((n + 15) div 16) * 16"
    and "16 dvd m \<Longrightarrow> n \<le> m \<Longrightarrow> ((n + 15) div 16) * 16 \<le> m"
proof -
  show "16 dvd ((n + 15) div 16) * 16" by simp
  show "n \<le> ((n + 15) div 16) * 16" by arith
  assume "16 dvd m" and le: "n \<le> m"
  then obtain k where k: "m = 16 * k" by (auto simp: dvd_def)
  have "(n + 15) div 16 \<le> (16 * k + 15) div 16"
    using le k by (intro div_le_mono) simp
  also have "(16 * k + 15) div 16 = k" by arith
  finally show "((n + 15) div 16) * 16 \<le> m" using k by simp
qed

lemma str_int_digits: "str_int 1 = ''1''" "str_int 2 = ''2''" "str_int 3 = ''3''"
  by (simp_all add: str_int_def str_nat.simps digit_char_def)

lemma demo_simps:
  "env demo_world = demo_env" "script_dir demo_env = ''/home/pi/Photobooth''"
  "trace demo_world = []" "next_handle demo_world = 0" "images demo_world = demo_images"
  by (simp_all add: demo_world_def demo_env_def)

section \<open>Overlay padding\<close>

text \<open>
  Claim C5. For an image file of any width \<open>wd\<close> and height \<open>ht\<close>, the first thing
  \<open>overlay_image\<close> does to the camera is to add an overlay whose buffer is
  \<open>pad_size (wd, ht)\<close> and whose window is the unpadded \<open>(wd, ht)\<close>. The buffer's width is
  the least multiple of 32 that is at least \<open>wd\<close>, and its height the least multiple of 16
  that is at least \<open>ht\<close>.
\<close>

theorem overlay_image_padding:
  assumes "images w (path_join (script_dir (env w)) image_name) = Some (wd, ht)"
  shows "take (Suc (length (trace w))) (trace (world_of (overlay_image image_name duration lay w)))
           = trace w @ [AddOverlay (next_handle w) (path_join (script_dir (env w)) image_name)
                          (pad_size (wd, ht)) (wd, ht)]
       \<and> 32 dvd fst (pad_size (wd, ht)) \<and> wd \<le> fst (pad_size (wd, ht))
       \<and> (\<forall>m. 32 dvd m \<and> wd \<le> m \<longrightarrow> fst (pad_size (wd, ht)) \<le> m)
       \<and> 16 dvd snd (pad_size (wd, ht)) \<and> ht \<le> snd (pad_size (wd, ht))
       \<and> (\<forall>m. 16 dvd m \<and> ht \<le> m \<longrightarrow> snd (pad_size (wd, ht)) \<le> m)"
proof -
  have tr: "take (Suc (length (trace w))) (trace (world_of (overlay_image image_name duration lay w)))
           = trace w @ [AddOverlay (next_handle w) (path_join (script_dir (env w)) image_name)
                          (pad_size (wd, ht)) (wd, ht)]"
    using assms
    by (simp add: overlay_image_def Let_def remove_overlay_def camera_remove_overlay_def
        and_then_def emit_def logging_def sleep_def split: option.splits)
  have w: "32 dvd fst (pad_size (wd, ht))" "wd \<le> fst (pad_size (wd, ht))"
    "\<And>m. 32 dvd m \<Longrightarrow> wd \<le> m \<Longrightarrow> fst (pad_size (wd, ht)) \<le> m"
    using round_up_32[where n=wd] by (simp_all add: pad_size_def)
  have h: "16 dvd snd (pad_size (wd, ht))" "ht \<le> snd (pad_size (wd, ht))"
    "\<And>m. 16 dvd m \<Longrightarrow> ht \<le> m \<Longrightarrow> snd (pad_size (wd, ht)) \<le> m"
    using round_up_16[where n=ht] by (simp_all add: pad_size_def)
  show ?thesis using tr w h by blast
qed

theorem overlay_image_padding_witness:
  "images demo_world (path_join (script_dir (env demo_world)) ''Assets/get_ready_1.png'')
     = Some (1000, 590)
   \<and> take 1 (trace (world_of (overlay_image ''Assets/get_ready_1.png'' 2 3 demo_world)))
       = [AddOverlay 0 ''/home/pi/Photobooth/Assets/get_ready_1.png'' (1024, 592) (1000, 590)]"
proof -
  have h: "images demo_world (path_join (script_dir (env demo_world)) ''Assets/get_ready_1.png'')
             = Some (1000, 590)"
    by (simp add: demo_simps path_join_def demo_images_def)
  show ?thesis
    using h overlay_image_padding[OF h, of 2 3]
    by (simp add: demo_simps path_join_def pad_size_def)
qed

section \<open>The file name stem\<close>

lemma split_chr_nonempty [simp]: "split_chr c s \<noteq> []"
  by (induction s) (auto split: list.splits)

lemma hd_split_chr_notin: "c \<notin> set a \<Longrightarrow> hd (split_chr c a) = a"
  by (induction a) (auto split: list.splits)

lemma hd_split_chr_append: "c \<notin> set a \<Longrightarrow> hd (split_chr c (a @ c # b)) = a"
  by (induction a) (auto split: list.splits)

lemma replace_chr_append: "replace_chr c new (a @ b) = replace_chr c new a @ replace_chr c new b"
  by (simp add: replace_chr_def)

lemma replace_chr_notin: "c \<notin> set s \<Longrightarrow> replace_chr c new s = s"
  by (induction s) (auto simp: replace_chr_def)

lemma replace_chr_removes: "c \<notin> set new \<Longrightarrow> c \<notin> set (replace_chr c new s)"
  by (induction s) (auto simp: replace_chr_def)

lemma replace_chr_keeps_out:
  "d \<notin> set s \<Longrightarrow> d \<notin> set new \<Longrightarrow> d \<notin> set (replace_chr c new s)"
  by (induction s) (auto simp: replace_chr_def)

lemma digit_char_in: "digit_char n \<in> set ''0123456789''"
  unfolding digit_char_def by (rule nth_mem) simp

lemma str_nat_digits: "set (str_nat n) \<subseteq> set ''0123456789''"
proof (induction n rule: str_nat.induct)
  case (1 n)
  show ?case
  proof (cases "n < 10")
    case True
    then show ?thesis using digit_char_in[of n] by (subst str_nat.simps) simp
  next
    case False
    then show ?thesis using 1 digit_char_in[of n] by (subst str_nat.simps) simp
  qed
qed

lemma zero_pad_digits: "set (zero_pad k n) \<subseteq> set ''0123456789''"
  using str_nat_digits[of n] by (auto simp: zero_pad_def)

lemma zero_pad_free:
  "CHR ''.'' \<notin> set (zero_pad k n)" "CHR '' '' \<notin> set (zero_pad k n)"
  "CHR '':'' \<notin> set (zero_pad k n)"
  using zero_pad_digits[of k n] by auto

lemma set_filename_form:
  "set_filename w =
     zero_pad 4 (year (now (env w))) @ ''-'' @ zero_pad 2 (month (now (env w))) @ ''-'' @
     zero_pad 2 (day (now (env w))) @ ''_'' @ zero_pad 2 (hour (now (env w))) @ ''-'' @
     zero_pad 2 (minute (now (env w))) @ ''-'' @ zero_pad 2 (second (now (env w)))"
proof -
  define t where "t = now (env w)"
  define a where "a = zero_pad 4 (year t) @ ''-'' @ zero_pad 2 (month t) @ ''-'' @
     zero_pad 2 (day t) @ '' '' @ zero_pad 2 (hour t) @ '':'' @ zero_pad 2 (minute t) @ '':'' @
     zero_pad 2 (second t)"
  have nodot: "CHR ''.'' \<notin> set a"
    by (simp add: a_def zero_pad_free)
  have "str_datetime t = a @ (if microsecond t \<noteq> 0 then CHR ''.'' # zero_pad 6 (microsecond t) else [])"
    by (simp add: str_datetime_def a_def)
  then have "hd (split_chr CHR ''.'' (str_datetime t)) = a"
    using nodot by (simp add: hd_split_chr_append hd_split_chr_notin)
  then have "set_filename w = replace_chr CHR '':'' ''-'' (replace_chr CHR '' '' ''_'' a)"
    by (simp add: set_filename_def t_def)
  also have "\<dots> = zero_pad 4 (year t) @ ''-'' @ zero_pad 2 (month t) @ ''-'' @
     zero_pad 2 (day t) @ ''_'' @ zero_pad 2 (hour t) @ ''-'' @ zero_pad 2 (minute t) @ ''-'' @
     zero_pad 2 (second t)"
    unfolding a_def replace_chr_append
    by (simp add: replace_chr_notin zero_pad_free) (simp add: replace_chr_def)
  finally show ?thesis by (simp add: t_def)
qed

text \<open>
  Claim C8. The stem depends on the wall clock alone, so two calls at the same timestamp
  give the same stem. It contains no space, no colon and no dot: it is the timestamp to
  the second, with the space replaced by an underscore and every colon by a hyphen, and
  the microseconds cut off.
\<close>

theorem set_filename_stem:
  "(now (env w1) = now (env w2) \<longrightarrow> set_filename w1 = set_filename w2)
   \<and> CHR '' '' \<notin> set (set_filename w) \<and> CHR '':'' \<notin> set (set_filename w)
   \<and> CHR ''.'' \<notin> set (set_filename w)
   \<and> set_filename w =
       zero_pad 4 (year (now (env w))) @ ''-'' @ zero_pad 2 (month (now (env w))) @ ''-'' @
       zero_pad 2 (day (now (env w))) @ ''_'' @ zero_pad 2 (hour (now (env w))) @ ''-'' @
       zero_pad 2 (minute (now (env w))) @ ''-'' @ zero_pad 2 (second (now (env w)))"
proof -
  have det: "now (env w1) = now (env w2) \<longrightarrow> set_filename w1 = set_filename w2"
    by (simp add: set_filename_def)
  have sp: "CHR '' '' \<notin> set (set_filename w)"
    unfolding set_filename_def
    by (rule replace_chr_keeps_out) (simp_all add: replace_chr_removes)
  have co: "CHR '':'' \<notin> set (set_filename w)"
    unfolding set_filename_def by (rule replace_chr_removes) simp
  have dot: "CHR ''.'' \<notin> set (set_filename w)"
    by (subst set_filename_form) (simp add: zero_pad_free)
  show ?thesis using det sp co dot set_filename_form[of w] by blast
qed

lemma zero_pad_demo:
  "zero_pad 4 2024 = ''2024''" "zero_pad 2 1 = ''01''" "zero_pad 2 (Suc 0) = ''01''"
  "zero_pad 2 12 = ''12''" "zero_pad 2 0 = ''00''"
  by (simp_all add: zero_pad_def str_nat.simps digit_char_def)

theorem set_filename_stem_witness:
  "now (env demo_world) = now (env (demo_world\<lparr>led := True\<rparr>))
   \<and> set_filename demo_world = set_filename (demo_world\<lparr>led := True\<rparr>)
   \<and> set_filename demo_world = ''2024-01-01_12-00-00''"
proof -
  note st = set_filename_stem[of demo_world "demo_world\<lparr>led := True\<rparr>" demo_world]
  have a: "now (env demo_world) = now (env (demo_world\<lparr>led := True\<rparr>))" by simp
  have b: "set_filename demo_world = set_filename (demo_world\<lparr>led := True\<rparr>)"
    using st a by blast
  have t: "now (env demo_world) = \<lparr>year = 2024, month = 1, day = 1, hour = 12, minute = 0,
             second = 0, microsecond = 123456\<rparr>"
    by (simp add: demo_world_def demo_env_def)
  have c: "set_filename demo_world = ''2024-01-01_12-00-00''"
    using st unfolding t by (simp add: zero_pad_demo)
  show ?thesis using a b c by blast
qed

section \<open>Taking one photo\<close>

lemma countdown_321:
  "countdown [3, 2, 1] w =
     w\<lparr>annotate_text := ''             ...1'',
       trace := trace w @ [Annotate ''             ...3'', Sleep 1000,
                           Annotate ''             ...2'', Sleep 1000,
                           Annotate ''             ...1'', Sleep 1000]\<rparr>"
  by (simp add: Let_def sleep_def emit_def str_int_digits)

text \<open>
  Claim C6. For every shot index, path and stem, \<open>take_photo\<close> sets the annotation to the
  countdown texts for 3, 2 and 1, sleeping one second after each, clears the annotation,
  and then asks the camera once for a capture to the file path + stem + \<open>_\<close> + index +
  \<open>of3.jpg\<close>. The capture is the last thing done to the camera; the file is written,
  and the function returns, exactly when the camera can write it. The indices 1, 2 and 3
  are rendered as the digits \<open>1\<close>, \<open>2\<close> and \<open>3\<close>.
\<close>

theorem take_photo_countdown_then_capture:
  "trace (world_of (take_photo photo_number filepath filename_prefix w)) =
     trace w @
     [Annotate ''             ...3'', Sleep 1000,
      Annotate ''             ...2'', Sleep 1000,
      Annotate ''             ...1'', Sleep 1000,
      Annotate [],
      Capture (filepath @ filename_prefix @ ''_'' @ str_int photo_number @ ''of3.jpg'')] @
     (if capture_ok (env w) (filepath @ filename_prefix @ ''_'' @ str_int photo_number @ ''of3.jpg'')
      then [Log INFO (''Photo '' @ str_int photo_number @ '' saved'')] else [])
   \<and> annotate_text (world_of (take_photo photo_number filepath filename_prefix w)) = []
   \<and> photos (world_of (take_photo photo_number filepath filename_prefix w)) =
       photos w @
       (if capture_ok (env w) (filepath @ filename_prefix @ ''_'' @ str_int photo_number @ ''of3.jpg'')
        then [filepath @ filename_prefix @ ''_'' @ str_int photo_number @ ''of3.jpg''] else [])
   \<and> is_Ok (take_photo photo_number filepath filename_prefix w) =
       capture_ok (env w) (filepath @ filename_prefix @ ''_'' @ str_int photo_number @ ''of3.jpg'')
   \<and> str_int 1 = ''1'' \<and> str_int 2 = ''2'' \<and> str_int 3 = ''3''"
  unfolding take_photo_def countdown_321 Let_def
  by (simp add: camera_capture_def and_then_def emit_def logging_def str_int_digits Let_def)

text \<open>The scenario of the specification, from the theorem.\<close>

theorem take_photo_scenario:
  "trace (world_of (take_photo 1 ''/media/pi/USB1/photobooth/'' ''2024-01-01_12-00-00'' demo_world)) =
     [Annotate ''             ...3'', Sleep 1000,
      Annotate ''             ...2'', Sleep 1000,
      Annotate ''             ...1'', Sleep 1000,
      Annotate [],
      Capture ''/media/pi/USB1/photobooth/2024-01-01_12-00-00_1of3.jpg'',
      Log INFO ''Photo 1 saved'']
   \<and> photos (world_of (take_photo 2 ''/media/pi/USB1/photobooth/'' ''2024-01-01_12-00-00'' demo_world)) =
     [''/media/pi/USB1/photobooth/2024-01-01_12-00-00_2of3.jpg'']
   \<and> photos (world_of (take_photo 3 ''/media/pi/USB1/photobooth/'' ''2024-01-01_12-00-00'' demo_world)) =
     [''/media/pi/USB1/photobooth/2024-01-01_12-00-00_3of3.jpg'']"
proof -
  have e: "capture_ok (env demo_world) = (\<lambda>p. True)" "trace demo_world = []"
    "photos demo_world = []"
    by (simp_all add: demo_world_def demo_env_def)
  show ?thesis
    using take_photo_countdown_then_capture[of 1 "''/media/pi/USB1/photobooth/''"
            "''2024-01-01_12-00-00''" demo_world]
          take_photo_countdown_then_capture[of 2 "''/media/pi/USB1/photobooth/''"
            "''2024-01-01_12-00-00''" demo_world]
          take_photo_countdown_then_capture[of 3 "''/media/pi/USB1/photobooth/''"
            "''2024-01-01_12-00-00''" demo_world]
    by (simp add: e)
qed

section \<open>The output path\<close>

lemma scan_mounts_env: "env (snd (scan_mounts ds pp w)) = env w"
  by (induction ds arbitrary: pp w) (simp_all add: Let_def logging_def emit_def)

lemma scan_mounts_snoc:
  "scan_mounts (ds @ [d]) pp w =
     scan_mounts [d] (fst (scan_mounts ds pp w)) (snd (scan_mounts ds pp w))"
  by (induction ds arbitrary: pp w) (simp_all add: Let_def)

text \<open>The last entry of the listing alone decides the path.\<close>

lemma scan_mounts_last:
  "fst (scan_mounts (ds @ [d]) pp w) =
     (if dirs (snd (scan_mounts ds pp w)) (path_join ''/media/pi/'' d @ ''/photobooth/'')
         \<or> makedirs_ok (env w) (path_join ''/media/pi/'' d @ ''/photobooth/'')
      then path_join ''/media/pi/'' d @ ''/photobooth/'' else [])"
  unfolding scan_mounts_snoc by (simp add: Let_def scan_mounts_env)

lemma scan_mounts_all_fail:
  assumes "\<forall>d \<in> set ds. \<not> dirs w (path_join ''/media/pi/'' d @ ''/photobooth/'')
                       \<and> \<not> makedirs_ok (env w) (path_join ''/media/pi/'' d @ ''/photobooth/'')"
  shows "fst (scan_mounts ds [] w) = [] \<and> dirs (snd (scan_mounts ds [] w)) = dirs w"
  using assms
  by (induction ds arbitrary: w) (simp_all add: Let_def logging_def emit_def)

text \<open>With no mount, or when no mount has or accepts the directory, the fallback is used.\<close>

lemma set_default_path_fallback:
  assumes "media (env w) = Some ds"
    and "\<forall>d \<in> set ds. \<not> dirs w (path_join ''/media/pi/'' d @ ''/photobooth/'')
                    \<and> \<not> makedirs_ok (env w) (path_join ''/media/pi/'' d @ ''/photobooth/'')"
  shows "is_Ok (set_default_path w)
       \<and> value_of (set_default_path w) = script_dir (env w) @ ''/photobooth/''"
  using assms(1) scan_mounts_all_fail[OF assms(2)] scan_mounts_env[of ds "[]" w]
  by (simp add: set_default_path_def split_beta Let_def)

text \<open>
  Claim C1 says that the first mount that has or accepts the \<open>photobooth\<close> directory
  becomes the output path, and that with exactly one such mount that mount is chosen. The
  loop of \<open>set_default_path\<close> does not stop at a mount that succeeds: with the listing
  \<open>USB1\<close>, \<open>USB2\<close>, where the directory exists on \<open>USB1\<close> and cannot be created on
  \<open>USB2\<close>, the function returns the fallback beside the script, not the path on
  \<open>USB1\<close>; and where both mounts accept it, the function returns the path on
  \<open>USB2\<close>, the last one.
\<close>

theorem set_default_path_last_mount_decides:
  "dirs two_mounts_world ''/media/pi/USB1/photobooth/''
   \<and> \<not> dirs two_mounts_world ''/media/pi/USB2/photobooth/''
   \<and> \<not> makedirs_ok (env two_mounts_world) ''/media/pi/USB2/photobooth/''
   \<and> media (env two_mounts_world) = Some [''USB1'', ''USB2'']
   \<and> is_Ok (set_default_path two_mounts_world)
   \<and> value_of (set_default_path two_mounts_world) = ''/home/pi/Photobooth/photobooth/''
   \<and> media (env both_mounts_world) = Some [''USB1'', ''USB2'']
   \<and> makedirs_ok (env both_mounts_world) ''/media/pi/USB1/photobooth/''
   \<and> makedirs_ok (env both_mounts_world) ''/media/pi/USB2/photobooth/''
   \<and> value_of (set_default_path both_mounts_world) = ''/media/pi/USB2/photobooth/''"
  by (simp add: two_mounts_world_def both_mounts_world_def demo_world_def demo_env_def
      set_default_path_def Let_def path_join_def logging_def emit_def)

section \<open>The idle loop\<close>

lemma and_then_assoc:
  "and_then (and_then m f) g = and_then m (\<lambda>a w. and_then (f a w) g)"
  by (cases m) (simp_all add: and_then_def)

lemma main_loop_append:
  "main_loop (xs @ ys) l w = and_then (main_loop xs l w) (\<lambda>l1 w1. main_loop ys l1 w1)"
proof (induction xs arbitrary: l w)
  case Nil
  show ?case by (simp add: and_then_def)
next
  case (Cons x xs)
  show ?case by (cases "main_body x l w") (simp_all add: and_then_def Cons)
qed

lemma main_loop_snoc:
  "main_loop (replicate (Suc k) e) l w =
     and_then (main_loop (replicate k e) l w) (\<lambda>l1 w1. main_body e l1 w1)"
proof -
  have "replicate (Suc k) e = replicate k e @ [e]"
    by (simp add: replicate_append_same)
  then have "main_loop (replicate (Suc k) e) l w =
      and_then (main_loop (replicate k e) l w) (\<lambda>l1 w1. main_loop [e] l1 w1)"
    by (simp only: main_loop_append)
  moreover have "(\<lambda>l1 w1. main_loop [e] l1 w1) = (\<lambda>l1 w1. main_body e l1 w1)"
    by (intro ext) (simp add: and_then_def split: result.splits)
  ultimately show ?thesis by simp
qed

lemma alpha_of_set:
  "h \<in> handle ` set ovs \<Longrightarrow>
   map_option alpha (find (\<lambda>x. handle x = h)
      (map (\<lambda>x. if handle x = h then x\<lparr>alpha := a\<rparr> else x) ovs)) = Some a"
  by (induction ovs) auto

lemma handles_set_alpha:
  "handle ` set (map (\<lambda>x. if handle x = h then x\<lparr>alpha := a\<rparr> else x) ovs) = handle ` set ovs"
  by (induction ovs) auto

lemma set_alpha_live:
  assumes "h \<in> handle ` set (overlays w)"
  shows "\<exists>w1. set_alpha (Overlay h) a w = Ok () w1
           \<and> trace w1 = trace w @ [SetAlpha h a]
           \<and> handle ` set (overlays w1) = handle ` set (overlays w)
           \<and> alpha_of h w1 = Some a \<and> led w1 = led w"
proof -
  define ovs where "ovs = map (\<lambda>x. if handle x = h then x\<lparr>alpha := a\<rparr> else x) (overlays w)"
  define w1 where "w1 = emit [SetAlpha h a] (w\<lparr>overlays := ovs\<rparr>)"
  have r: "set_alpha (Overlay h) a w = Ok () w1"
    using assms unfolding set_alpha_def w1_def ovs_def by simp
  have o: "overlays w1 = ovs" "trace w1 = trace w @ [SetAlpha h a]" "led w1 = led w"
    by (simp_all add: w1_def emit_def)
  have hs: "handle ` set ovs = handle ` set (overlays w)"
    unfolding ovs_def by (rule handles_set_alpha)
  have al: "alpha_of h w1 = Some a"
    unfolding alpha_of_def o ovs_def using assms by (rule alpha_of_set)
  show ?thesis using r o hs al by simp
qed

text \<open>One poll that returns no edge, with the counter at \<open>c\<close> before it.\<close>

lemma idle_tick:
  assumes "i l = int c" and "intro_image_2 l = Overlay h" and "h \<in> handle ` set (overlays w)"
  shows "\<exists>w1. main_body Timeout l w = Ok (l\<lparr>i := (if c + 1 = 20 then 0 else int c + 1)\<rparr>) w1
           \<and> trace w1 = trace w @
                (if c + 1 = 10 then [SetAlpha h 255, Led True]
                 else if c + 1 = 20 then [SetAlpha h 0, Led False] else []) @ [Sleep 100]
           \<and> handle ` set (overlays w1) = handle ` set (overlays w)
           \<and> alpha_of h w1 =
                (if c + 1 = 10 then Some 255 else if c + 1 = 20 then Some 0 else alpha_of h w)
           \<and> led w1 = (if c + 1 = 10 then True else if c + 1 = 20 then False else led w)"
proof -
  consider (on) "c + 1 = 10" | (off) "c + 1 = 20" | (none) "c + 1 \<noteq> 10" "c + 1 \<noteq> 20"
    by blast
  then show ?thesis
  proof cases
    case on
    then have c: "c = 9" by simp
    obtain w1 where w1: "set_alpha (Overlay h) 255 w = Ok () w1"
      "trace w1 = trace w @ [SetAlpha h 255]"
      "handle ` set (overlays w1) = handle ` set (overlays w)"
      "alpha_of h w1 = Some 255" "led w1 = led w"
      using set_alpha_live[OF assms(3), of 255] by blast
    have "main_body Timeout l w = Ok (l\<lparr>i := 10\<rparr>) (sleep 100 (gpio_output True w1))"
      using assms(1,2) w1(1) unfolding c
      by (simp add: main_body_def blink_speed_def Let_def and_then_def)
    then show ?thesis
      using w1 unfolding c
      by (simp add: sleep_def gpio_output_def emit_def alpha_of_def)
  next
    case off
    then have c: "c = 19" by simp
    obtain w1 where w1: "set_alpha (Overlay h) 0 w = Ok () w1"
      "trace w1 = trace w @ [SetAlpha h 0]"
      "handle ` set (overlays w1) = handle ` set (overlays w)"
      "alpha_of h w1 = Some 0" "led w1 = led w"
      using set_alpha_live[OF assms(3), of 0] by blast
    have "main_body Timeout l w = Ok (l\<lparr>i := 0\<rparr>) (sleep 100 (gpio_output False w1))"
      using assms(1,2) w1(1) unfolding c
      by (simp add: main_body_def blink_speed_def Let_def and_then_def)
    then show ?thesis
      using w1 unfolding c
      by (simp add: sleep_def gpio_output_def emit_def alpha_of_def)
  next
    case none
    then have "int c + 1 \<noteq> 10" "int c + 1 \<noteq> 20" by linarith+
    then show ?thesis
      using assms none
      by (simp add: main_body_def blink_speed_def Let_def sleep_def emit_def alpha_of_def)
  qed
qed

text \<open>
  \<open>k\<close> polls in a row that return no edge, with the counter at \<open>n0 < 10\<close> before them.
\<close>

lemma idle_run:
  assumes "i l = int n0" and "n0 < 10" and "intro_image_2 l = Overlay h"
    and "h \<in> handle ` set (overlays w)"
  shows "\<exists>w1. main_loop (replicate k Timeout) l w = Ok (l\<lparr>i := int ((n0 + k) mod 20)\<rparr>) w1
           \<and> handle ` set (overlays w1) = handle ` set (overlays w)
           \<and> (if n0 + k < 10
               then alpha_of h w1 = alpha_of h w \<and> led w1 = led w
                    \<and> trace w1 = trace w @ replicate k (Sleep 100)
               else alpha_of h w1 = Some (if 10 \<le> (n0 + k) mod 20 then 255 else 0)
                    \<and> led w1 = (10 \<le> (n0 + k) mod 20))"
proof (induction k)
  case 0
  have "l\<lparr>i := int n0\<rparr> = l" using assms(1) by simp
  then show ?case using assms(2) by simp
next
  case (Suc k)
  define c where "c = (n0 + k) mod 20"
  define l1 where "l1 = l\<lparr>i := int c\<rparr>"
  from Suc obtain w1 where w1: "main_loop (replicate k Timeout) l w = Ok l1 w1"
    "handle ` set (overlays w1) = handle ` set (overlays w)"
    "if n0 + k < 10
     then alpha_of h w1 = alpha_of h w \<and> led w1 = led w
          \<and> trace w1 = trace w @ replicate k (Sleep 100)
     else alpha_of h w1 = Some (if 10 \<le> c then 255 else 0) \<and> led w1 = (10 \<le> c)"
    unfolding c_def l1_def by blast
  have l1: "i l1 = int c" "intro_image_2 l1 = Overlay h" "h \<in> handle ` set (overlays w1)"
    using assms(3,4) w1(2) by (simp_all add: l1_def)
  from idle_tick[OF l1] obtain w2 where w2:
    "main_body Timeout l1 w1 = Ok (l1\<lparr>i := (if c + 1 = 20 then 0 else int c + 1)\<rparr>) w2"
    "trace w2 = trace w1 @
       (if c + 1 = 10 then [SetAlpha h 255, Led True]
        else if c + 1 = 20 then [SetAlpha h 0, Led False] else []) @ [Sleep 100]"
    "handle ` set (overlays w2) = handle ` set (overlays w1)"
    "alpha_of h w2 = (if c + 1 = 10 then Some 255 else if c + 1 = 20 then Some 0 else alpha_of h w1)"
    "led w2 = (if c + 1 = 10 then True else if c + 1 = 20 then False else led w1)"
    by blast
  have c20: "c < 20" by (simp add: c_def)
  have nxt: "(n0 + Suc k) mod 20 = (if c + 1 = 20 then 0 else c + 1)"
    using mod_Suc[of "n0 + k" 20] by (simp add: c_def)
  have small: "n0 + k < 10 \<Longrightarrow> c = n0 + k" by (simp add: c_def)
  have run: "main_loop (replicate (Suc k) Timeout) l w =
               Ok (l\<lparr>i := int ((n0 + Suc k) mod 20)\<rparr>) w2"
    unfolding main_loop_snoc w1(1) using w2(1) nxt
    by (simp add: and_then_def l1_def)
  have hs: "handle ` set (overlays w2) = handle ` set (overlays w)"
    using w2(3) w1(2) by simp
  have st: "if n0 + Suc k < 10
        then alpha_of h w2 = alpha_of h w \<and> led w2 = led w
             \<and> trace w2 = trace w @ replicate (Suc k) (Sleep 100)
        else alpha_of h w2 = Some (if 10 \<le> (n0 + Suc k) mod 20 then 255 else 0)
             \<and> led w2 = (10 \<le> (n0 + Suc k) mod 20)"
  proof (cases "n0 + Suc k < 10")
    case True
    then have k: "n0 + k < 10" and c: "c = n0 + k" by (simp_all add: c_def)
    have ne: "c + 1 \<noteq> 10" "c + 1 \<noteq> 20" using True c by simp_all
    have "trace w2 = trace w @ replicate k (Sleep 100) @ [Sleep 100]"
      using w2(2) w1(3) k ne by simp
    then have "trace w2 = trace w @ replicate (Suc k) (Sleep 100)"
      by (simp add: replicate_append_same)
    then show ?thesis using True w2(4,5) w1(3) k ne by simp
  next
    case False
    consider (on) "c + 1 = 10" | (off) "c + 1 = 20" | (none) "c + 1 \<noteq> 10" "c + 1 \<noteq> 20"
      by blast
    then show ?thesis
    proof cases
      case on
      then show ?thesis using False w2(4,5) nxt by simp
    next
      case off
      then show ?thesis using False w2(4,5) nxt by simp
    next
      case none
      have "\<not> n0 + k < 10"
      proof
        assume a: "n0 + k < 10"
        then have "c = n0 + k" by (rule small)
        then show False using False a none(1) by simp
      qed
      then have "alpha_of h w1 = Some (if 10 \<le> c then 255 else 0)" "led w1 = (10 \<le> c)"
        using w1(3) by simp_all
      moreover have "(10 \<le> c + 1) = (10 \<le> c)" using none(1) by linarith
      ultimately show ?thesis using False w2(4,5) nxt none by simp
    qed
  qed
  show ?case using run hs st by blast
qed

text \<open>
  Claim C7. In the idle loop with \<open>blink_speed = 10\<close>, starting with the counter at 0 and the
  second intro overlay on screen, any number \<open>k\<close> of polls without an edge leaves the
  loop running with the counter at \<open>k mod 20\<close>. The next such poll adds one to the counter;
  when that makes it 10, the alpha of the second intro overlay is set to 255 and the LED is
  switched on; when that makes it 20, the alpha is set to 0, the LED is switched off and
  the counter is set back to 0. So from the tenth poll on the alpha is 255 and the LED is
  on exactly while \<open>k mod 20\<close> is at least 10; before the tenth poll neither has changed.
\<close>

theorem idle_blink:
  assumes "i l = 0" and "intro_image_2 l = Overlay h" and "h \<in> handle ` set (overlays w)"
  shows "\<exists>l1 w1 l2 w2.
           main_loop (replicate k Timeout) l w = Ok l1 w1
         \<and> i l1 = int (k mod 20)
         \<and> main_loop (replicate (Suc k) Timeout) l w = Ok l2 w2
         \<and> i l2 = (if i l1 + 1 = 2 * blink_speed then 0 else i l1 + 1)
         \<and> trace w2 = trace w1 @
              (if i l1 + 1 = blink_speed then [SetAlpha h 255, Led True]
               else if i l1 + 1 = 2 * blink_speed then [SetAlpha h 0, Led False] else []) @
              [Sleep 100]
         \<and> (10 \<le> k \<longrightarrow> alpha_of h w1 = Some (if 10 \<le> k mod 20 then 255 else 0)
                        \<and> led w1 = (10 \<le> k mod 20))
         \<and> (k < 10 \<longrightarrow> alpha_of h w1 = alpha_of h w \<and> led w1 = led w)"
proof -
  define c where "c = k mod 20"
  define l1 where "l1 = l\<lparr>i := int c\<rparr>"
  have i0: "i l = int 0" using assms(1) by simp
  from idle_run[OF i0 _ assms(2,3), of k] obtain w1 where w1:
    "main_loop (replicate k Timeout) l w = Ok l1 w1"
    "handle ` set (overlays w1) = handle ` set (overlays w)"
    "if k < 10
     then alpha_of h w1 = alpha_of h w \<and> led w1 = led w
          \<and> trace w1 = trace w @ replicate k (Sleep 100)
     else alpha_of h w1 = Some (if 10 \<le> c then 255 else 0) \<and> led w1 = (10 \<le> c)"
    unfolding c_def l1_def by auto
  have l1: "i l1 = int c" "intro_image_2 l1 = Overlay h" "h \<in> handle ` set (overlays w1)"
    using assms(2,3) w1(2) by (simp_all add: l1_def)
  from idle_tick[OF l1] obtain w2 where w2:
    "main_body Timeout l1 w1 = Ok (l1\<lparr>i := (if c + 1 = 20 then 0 else int c + 1)\<rparr>) w2"
    "trace w2 = trace w1 @
       (if c + 1 = 10 then [SetAlpha h 255, Led True]
        else if c + 1 = 20 then [SetAlpha h 0, Led False] else []) @ [Sleep 100]"
    by blast
  define l2 where "l2 = l1\<lparr>i := (if c + 1 = 20 then 0 else int c + 1)\<rparr>"
  have run2: "main_loop (replicate (Suc k) Timeout) l w = Ok l2 w2"
    unfolding main_loop_snoc w1(1) using w2(1) by (simp add: and_then_def l2_def)
  have eqs: "(int c + 1 = blink_speed) = (c + 1 = 10)"
    "(int c + 1 = 2 * blink_speed) = (c + 1 = 20)"
    unfolding blink_speed_def by linarith+
  have i2: "i l2 = (if i l1 + 1 = 2 * blink_speed then 0 else i l1 + 1)"
    unfolding l1(1) eqs by (simp add: l2_def)
  have tr: "trace w2 = trace w1 @
              (if i l1 + 1 = blink_speed then [SetAlpha h 255, Led True]
               else if i l1 + 1 = 2 * blink_speed then [SetAlpha h 0, Led False] else []) @
              [Sleep 100]"
    unfolding l1(1) eqs by (rule w2(2))
  have hi: "10 \<le> k \<longrightarrow> alpha_of h w1 = Some (if 10 \<le> k mod 20 then 255 else 0)
                        \<and> led w1 = (10 \<le> k mod 20)"
    using w1(3) by (simp add: c_def)
  have lo: "k < 10 \<longrightarrow> alpha_of h w1 = alpha_of h w \<and> led w1 = led w"
    using w1(3) by simp
  have "i l1 = int (k mod 20)" using l1(1) by (simp add: c_def)
  then show ?thesis using w1(1) run2 i2 tr hi lo by blast
qed

lemma demo_images_simps:
  "demo_images ''/home/pi/Photobooth/Assets/intro_1.png'' = Some (1024, 600)"
  "demo_images ''/home/pi/Photobooth/Assets/intro_2.png'' = Some (1024, 600)"
  "demo_images ''/home/pi/Photobooth/Assets/get_ready_1.png'' = Some (1000, 590)"
  "demo_images ''/home/pi/Photobooth/Assets/get_ready_2.png'' = Some (1000, 590)"
  "demo_images ''/home/pi/Photobooth/Assets/get_ready_3.png'' = Some (1000, 590)"
  "demo_images ''/home/pi/Photobooth/Assets/processing.png'' = Some (1024, 600)"
  "demo_images ''/home/pi/Photobooth/Assets/all_done.png'' = Some (1024, 600)"
  by (simp_all add: demo_images_def)

lemma main_demo:
  "main [] demo_world = Ok idle_locals idle_world"
  "map handle (overlays idle_world) = [0, 1]"
  "next_handle idle_world = 2"
  "env idle_world = demo_env"
  by (simp_all add: idle_world_def idle_locals_def main_def overlay_image_def Let_def
      and_then_def emit_def logging_def demo_world_def demo_env_def path_join_def
      demo_images_simps)

theorem idle_blink_witness:
  "i idle_locals = 0 \<and> intro_image_2 idle_locals = Overlay 1
   \<and> 1 \<in> handle ` set (overlays idle_world)
   \<and> i (value_of (main_loop (replicate 10 Timeout) idle_locals idle_world)) = 10
   \<and> led (world_of (main_loop (replicate 10 Timeout) idle_locals idle_world))
   \<and> i (value_of (main_loop (replicate 20 Timeout) idle_locals idle_world)) = 0
   \<and> \<not> led (world_of (main_loop (replicate 20 Timeout) idle_locals idle_world))
   \<and> alpha_of 1 (world_of (main_loop (replicate 20 Timeout) idle_locals idle_world)) = Some 0"
proof -
  have h1: "i idle_locals = 0" and h2: "intro_image_2 idle_locals = Overlay 1"
    by (simp_all add: idle_locals_def)
  have "set (map handle (overlays idle_world)) = {0, 1}"
    unfolding main_demo(2) by simp
  then have h3: "1 \<in> handle ` set (overlays idle_world)"
    by auto
  from idle_blink[OF h1 h2 h3, of 10] obtain l1 w1 where
    a: "main_loop (replicate 10 Timeout) idle_locals idle_world = Ok l1 w1"
       "i l1 = int (10 mod 20)" "led w1 = (10 \<le> (10::nat) mod 20)"
    by auto
  from idle_blink[OF h1 h2 h3, of 20] obtain l2 w2 where
    b: "main_loop (replicate 20 Timeout) idle_locals idle_world = Ok l2 w2"
       "i l2 = int (20 mod 20)" "led w2 = (10 \<le> (20::nat) mod 20)"
       "alpha_of 1 w2 = Some (if 10 \<le> (20::nat) mod 20 then 255 else 0)"
    by auto
  show ?thesis using h1 h2 h3 a b by simp
qed

section \<open>Effects of the overlay and photo functions\<close>

lemma timeline_append [simp]: "timeline (xs @ ys) = timeline xs @ timeline ys"
  by (simp add: timeline_def)

lemma timeline_Nil [simp]: "timeline [] = []"
  by (simp add: timeline_def)

lemma timeline_Cons [simp]: "timeline (e # es) = act_of e @ timeline es"
  by (simp add: timeline_def)

lemma find_SomeD: "find P xs = Some x \<Longrightarrow> x \<in> set xs \<and> P x"
  by (induction xs) (auto split: if_splits)

lemma live_filter:
  "map handle (filter (\<lambda>x. handle x \<noteq> h) ovs) = filter (\<lambda>x. x \<noteq> h) (map handle ovs)"
  by (induction ovs) auto

text \<open>
  What a call that returns has done, in terms of the surroundings, the photos, the
  overlays on screen, the next handle and the timeline.
\<close>

lemma remove_overlay_Ok:
  assumes "remove_overlay (Overlay h) w = Ok u w'"
  shows "env w' = env w \<and> dirs w' = dirs w \<and> photos w' = photos w
       \<and> live w' = filter (\<lambda>x. x \<noteq> h) (live w) \<and> h \<in> set (live w)
       \<and> next_handle w' = next_handle w
       \<and> timeline (trace w') = timeline (trace w) @ [Hide h]"
proof -
  from assms obtain ov where f: "find (\<lambda>x. handle x = h) (overlays w) = Some ov"
    and w': "w' = logging INFO (''Removed overlay '' @ str_int (oid ov))
                    (emit [RemoveOverlay h]
                       (w\<lparr>overlays := filter (\<lambda>x. handle x \<noteq> h) (overlays w)\<rparr>))"
    by (auto simp: remove_overlay_def camera_remove_overlay_def and_then_def
        split: option.splits)
  from find_SomeD[OF f] have "h \<in> set (live w)" by (auto simp: live_def)
  then show ?thesis
    unfolding w' by (simp add: logging_def emit_def live_def live_filter)
qed

lemma remove_overlay_sentinel: "remove_overlay (PyInt (- 1)) w = Ok () w"
  by (simp add: remove_overlay_def)

lemma remove_overlay_False: "remove_overlay PyFalse w \<noteq> Ok u w'"
  by (simp add: remove_overlay_def camera_remove_overlay_def and_then_def)

lemma overlay_image_untimed:
  assumes "overlay_image image_name duration lay w = Ok v w'" and "\<not> 0 < duration"
  shows "v = Overlay (next_handle w)
       \<and> env w' = env w \<and> dirs w' = dirs w \<and> photos w' = photos w
       \<and> live w' = live w @ [next_handle w]
       \<and> next_handle w' = Suc (next_handle w)
       \<and> timeline (trace w') = timeline (trace w) @
            [Show (next_handle w) (path_join (script_dir (env w)) image_name)]"
  using assms
  by (auto simp: overlay_image_def Let_def logging_def emit_def live_def split: option.splits)

lemma overlay_image_timed:
  assumes "overlay_image image_name duration lay w = Ok v w'" and "0 < duration"
  shows "v = PyInt (- 1)
       \<and> env w' = env w \<and> dirs w' = dirs w \<and> photos w' = photos w
       \<and> live w' = filter (\<lambda>x. x \<noteq> next_handle w) (live w)
       \<and> next_handle w' = Suc (next_handle w)
       \<and> timeline (trace w') = timeline (trace w) @
            [Show (next_handle w) (path_join (script_dir (env w)) image_name),
             Hold (nat duration * 1000), Hide (next_handle w)]"
proof -
  from assms obtain sz where
    sz: "images w (path_join (script_dir (env w)) image_name) = Some sz"
    by (auto simp: overlay_image_def split: option.splits)
  define w2 where "w2 = sleep (nat duration * 1000)
     (logging INFO (''Created overlay '' @ image_name)
       (emit [AddOverlay (next_handle w) (path_join (script_dir (env w)) image_name)
                (pad_size sz) sz]
          (w\<lparr>overlays := overlays w @
                [\<lparr>handle = next_handle w, source = path_join (script_dir (env w)) image_name,
                  buffer = pad_size sz, window = sz, layer = lay, oid = lay,
                  alpha = default_alpha (env w)\<rparr>],
              next_handle := Suc (next_handle w)\<rparr>)))"
  have "and_then (remove_overlay (Overlay (next_handle w)) w2) (\<lambda>_ w3. Ok (PyInt (- 1)) w3)
          = Ok v w'"
    using assms sz by (simp add: overlay_image_def Let_def w2_def)
  then obtain u where r: "remove_overlay (Overlay (next_handle w)) w2 = Ok u w'"
    and v: "v = PyInt (- 1)"
    by (auto simp: and_then_Ok_iff)
  have w2: "env w2 = env w" "dirs w2 = dirs w" "photos w2 = photos w"
    "live w2 = live w @ [next_handle w]" "next_handle w2 = Suc (next_handle w)"
    "timeline (trace w2) = timeline (trace w) @
       [Show (next_handle w) (path_join (script_dir (env w)) image_name),
        Hold (nat duration * 1000)]"
    by (simp_all add: w2_def sleep_def logging_def emit_def live_def)
  show ?thesis
    using remove_overlay_Ok[OF r] v unfolding w2 by simp
qed

lemma photo_screen_Ok:
  assumes "photo_screen photo_number w = Ok u w'"
  shows "env w' = env w \<and> dirs w' = dirs w \<and> photos w' = photos w
       \<and> live w' = filter (\<lambda>x. x \<noteq> next_handle w) (live w)
       \<and> next_handle w' = Suc (next_handle w)
       \<and> timeline (trace w') = timeline (trace w) @
            [Show (next_handle w)
               (path_join (script_dir (env w)) (''Assets/get_ready_'' @ str_int photo_number @ ''.png'')),
             Hold 2000, Hide (next_handle w)]"
proof -
  from assms obtain v w1 where
    a: "overlay_image (''Assets/get_ready_'' @ str_int photo_number @ ''.png'') 2 3 w = Ok v w1"
    and b: "remove_overlay v w1 = Ok u w'"
    by (auto simp: photo_screen_def and_then_Ok_iff)
  have t: "overlay_image (''Assets/get_ready_'' @ str_int photo_number @ ''.png'') 2 3 w = Ok v w1
           \<Longrightarrow> (0::int) < 2 \<Longrightarrow> v = PyInt (- 1) \<and> env w1 = env w \<and> dirs w1 = dirs w \<and> photos w1 = photos w
       \<and> live w1 = filter (\<lambda>x. x \<noteq> next_handle w) (live w)
       \<and> next_handle w1 = Suc (next_handle w)
       \<and> timeline (trace w1) = timeline (trace w) @
            [Show (next_handle w) (path_join (script_dir (env w)) (''Assets/get_ready_'' @ str_int photo_number @ ''.png'')),
             Hold (nat 2 * 1000), Hide (next_handle w)]"
    by (rule overlay_image_timed)
  from t[OF a] have c: "v = PyInt (- 1)" "env w1 = env w" "dirs w1 = dirs w" "photos w1 = photos w"
    "live w1 = filter (\<lambda>x. x \<noteq> next_handle w) (live w)" "next_handle w1 = Suc (next_handle w)"
    "timeline (trace w1) = timeline (trace w) @
            [Show (next_handle w) (path_join (script_dir (env w)) (''Assets/get_ready_'' @ str_int photo_number @ ''.png'')),
             Hold 2000, Hide (next_handle w)]"
    by simp_all
  from b have "w' = w1" unfolding c(1) by (simp add: remove_overlay_sentinel)
  then show ?thesis using c by simp
qed

lemma take_photo_Ok:
  assumes "take_photo photo_number filepath filename_prefix w = Ok u w'"
  shows "env w' = env w \<and> dirs w' = dirs w
       \<and> photos w' = photos w @ [filepath @ filename_prefix @ ''_'' @ str_int photo_number @ ''of3.jpg'']
       \<and> live w' = live w \<and> next_handle w' = next_handle w
       \<and> timeline (trace w') = timeline (trace w) @
            [Hold 1000, Hold 1000, Hold 1000,
             Shot (filepath @ filename_prefix @ ''_'' @ str_int photo_number @ ''of3.jpg'')]"
  using assms unfolding take_photo_def countdown_321 Let_def
  by (auto simp: camera_capture_def and_then_def emit_def logging_def live_def Let_def
      split: if_splits)

section \<open>Playback\<close>

lemma sleep_facts [simp]:
  "env (sleep ms w) = env w" "dirs (sleep ms w) = dirs w" "photos (sleep ms w) = photos w"
  "live (sleep ms w) = live w" "next_handle (sleep ms w) = next_handle w"
  "timeline (trace (sleep ms w)) = timeline (trace w) @ [Hold ms]"
  by (simp_all add: sleep_def emit_def live_def)

lemma logging_facts [simp]:
  "env (logging lvl msg w) = env w" "dirs (logging lvl msg w) = dirs w"
  "photos (logging lvl msg w) = photos w" "live (logging lvl msg w) = live w"
  "next_handle (logging lvl msg w) = next_handle w"
  "timeline (trace (logging lvl msg w)) = timeline (trace w)"
  by (simp_all add: logging_def emit_def live_def)

lemma upto_1_3: "[1..3] = [1, 2, (3::int)]"
  by (simp add: upto.simps)

text \<open>The three iterations of the loop of \<open>playback\<close>.\<close>

lemma playback_loop_Ok:
  assumes "playback_loop [1, 2, 3] total_pics p s PyFalse w = Ok prev w'"
  shows "prev = Overlay (next_handle w + 2)
       \<and> env w' = env w \<and> dirs w' = dirs w \<and> photos w' = photos w
       \<and> live w' = filter (\<lambda>x. x \<noteq> Suc (next_handle w))
                      (filter (\<lambda>x. x \<noteq> next_handle w) (live w @ [next_handle w, Suc (next_handle w)])
                         @ [next_handle w + 2])
       \<and> next_handle w' = next_handle w + 3
       \<and> timeline (trace w') = timeline (trace w) @
           [Show (next_handle w)
              (path_join (script_dir (env w)) (p @ s @ ''_'' @ str_int 1 @ ''of'' @ str_int total_pics @ ''.jpg'')),
            Hold 2000,
            Show (next_handle w + 1)
              (path_join (script_dir (env w)) (p @ s @ ''_'' @ str_int 2 @ ''of'' @ str_int total_pics @ ''.jpg'')),
            Hide (next_handle w),
            Hold 2000,
            Show (next_handle w + 2)
              (path_join (script_dir (env w)) (p @ s @ ''_'' @ str_int 3 @ ''of'' @ str_int total_pics @ ''.jpg'')),
            Hide (next_handle w + 1),
            Hold 2000]"
proof -
  define f where "f k = p @ s @ ''_'' @ str_int k @ ''of'' @ str_int total_pics @ ''.jpg''" for k
  from assms obtain o1 x1 where
    a1: "overlay_image (f 1) 0 (3 + total_pics) w = Ok o1 x1"
    and r1: "playback_loop [2, 3] total_pics p s o1 (sleep 2000 x1) = Ok prev w'"
    by (auto simp: and_then_Ok_iff Let_def f_def)
  note e1 = overlay_image_untimed[OF a1]
  have o1: "o1 = Overlay (next_handle w)" using e1 by simp
  from r1 obtain o2 x2 u2 y2 where
    a2: "overlay_image (f 2) 0 (3 + total_pics) (sleep 2000 x1) = Ok o2 x2"
    and b2: "remove_overlay (Overlay (next_handle w)) x2 = Ok u2 y2"
    and r2: "playback_loop [3] total_pics p s o2 (sleep 2000 y2) = Ok prev w'"
    unfolding o1 by (auto simp: and_then_Ok_iff Let_def f_def)
  note e2 = overlay_image_untimed[OF a2]
  have o2: "o2 = Overlay (Suc (next_handle w))" using e1 e2 by simp
  note h2 = remove_overlay_Ok[OF b2]
  from r2 obtain o3 x3 u3 y3 where
    a3: "overlay_image (f 3) 0 (3 + total_pics) (sleep 2000 y2) = Ok o3 x3"
    and b3: "remove_overlay (Overlay (Suc (next_handle w))) x3 = Ok u3 y3"
    and r3: "prev = o3" "w' = sleep 2000 y3"
    unfolding o2 by (auto simp: and_then_Ok_iff Let_def f_def)
  note e3 = overlay_image_untimed[OF a3]
  note h3 = remove_overlay_Ok[OF b3]
  show ?thesis
    unfolding r3 using e1 e2 h2 e3 h3 by (simp add: f_def)
qed

lemma playback_Ok:
  assumes "playback 3 p s w = Ok u w'"
  shows "env w' = env w \<and> dirs w' = dirs w \<and> photos w' = photos w
       \<and> set (live w') \<subseteq> set (live w)
       \<and> next_handle w' = next_handle w + 5
       \<and> timeline (trace w') = timeline (trace w) @
           [Show (next_handle w) (path_join (script_dir (env w)) ''Assets/processing.png''),
            Hold 2000,
            Hide (next_handle w),
            Show (next_handle w + 1) (path_join (script_dir (env w)) (p @ s @ ''_1of3.jpg'')),
            Hold 2000,
            Show (next_handle w + 2) (path_join (script_dir (env w)) (p @ s @ ''_2of3.jpg'')),
            Hide (next_handle w + 1),
            Hold 2000,
            Show (next_handle w + 3) (path_join (script_dir (env w)) (p @ s @ ''_3of3.jpg'')),
            Hide (next_handle w + 2),
            Hold 2000,
            Hide (next_handle w + 3),
            Show (next_handle w + 4) (path_join (script_dir (env w)) ''Assets/all_done.png''),
            Hold 2000,
            Hide (next_handle w + 4)]"
proof -
  from assms obtain v1 w1 prev w2 u3 w3 v4 where
    a: "overlay_image ''Assets/processing.png'' 2 3 w = Ok v1 w1"
    and b: "playback_loop [1, 2, 3] 3 p s PyFalse w1 = Ok prev w2"
    and c: "remove_overlay prev w2 = Ok u3 w3"
    and d: "overlay_image ''Assets/all_done.png'' 2 4 w3 = Ok v4 w'"
    by (auto simp: playback_def and_then_Ok_iff upto_1_3)
  have ea: "env w1 = env w" "dirs w1 = dirs w" "photos w1 = photos w"
    "live w1 = filter (\<lambda>x. x \<noteq> next_handle w) (live w)"
    "next_handle w1 = Suc (next_handle w)"
    "timeline (trace w1) = timeline (trace w) @
       [Show (next_handle w) (path_join (script_dir (env w)) ''Assets/processing.png''),
        Hold 2000, Hide (next_handle w)]"
    using overlay_image_timed[OF a] by simp_all
  note eb = playback_loop_Ok[OF b]
  have prev: "prev = Overlay (next_handle w1 + 2)" using eb by simp
  note ec = remove_overlay_Ok[OF c[unfolded prev]]
  have ed: "env w' = env w3" "dirs w' = dirs w3" "photos w' = photos w3"
    "live w' = filter (\<lambda>x. x \<noteq> next_handle w3) (live w3)"
    "next_handle w' = Suc (next_handle w3)"
    "timeline (trace w') = timeline (trace w3) @
       [Show (next_handle w3) (path_join (script_dir (env w3)) ''Assets/all_done.png''),
        Hold 2000, Hide (next_handle w3)]"
    using overlay_image_timed[OF d] by simp_all
  have sub: "set (live w') \<subseteq> set (live w)"
    unfolding ed using ec eb ea(4,5) by auto
  have rest: "env w' = env w" "dirs w' = dirs w" "photos w' = photos w"
    "next_handle w' = next_handle w + 5"
    unfolding ed using ec eb ea by simp_all
  have tl: "timeline (trace w') = timeline (trace w) @
           [Show (next_handle w) (path_join (script_dir (env w)) ''Assets/processing.png''),
            Hold 2000,
            Hide (next_handle w),
            Show (next_handle w + 1) (path_join (script_dir (env w)) (p @ s @ ''_1of3.jpg'')),
            Hold 2000,
            Show (next_handle w + 2) (path_join (script_dir (env w)) (p @ s @ ''_2of3.jpg'')),
            Hide (next_handle w + 1),
            Hold 2000,
            Show (next_handle w + 3) (path_join (script_dir (env w)) (p @ s @ ''_3of3.jpg'')),
            Hide (next_handle w + 2),
            Hold 2000,
            Hide (next_handle w + 3),
            Show (next_handle w + 4) (path_join (script_dir (env w)) ''Assets/all_done.png''),
            Hold 2000,
            Hide (next_handle w + 4)]"
    unfolding ed using ec eb ea by (simp add: str_int_digits)
  show ?thesis using sub rest tl by blast
qed

text \<open>
  Claim C3. A playback of the three photos that returns shows and hides overlays in this
  order: the processing overlay for 2 seconds; the first photo, held 2 seconds; the
  second photo, and only then the first is hidden, held 2 seconds; the third photo, and
  only then the second is hidden, held 2 seconds; then the third photo is hidden, and the
  done overlay is shown for 2 seconds and hidden. From the moment the first photo is
  shown until just before the third is hidden (after 4 to 11 of these 15 acts), at least
  one photo overlay is on screen.
\<close>

theorem playback_overlap:
  assumes "playback 3 p s w = Ok u w'"
  shows "timeline (trace w') = timeline (trace w) @
           [Show (next_handle w) (path_join (script_dir (env w)) ''Assets/processing.png''),
            Hold 2000,
            Hide (next_handle w),
            Show (next_handle w + 1) (path_join (script_dir (env w)) (p @ s @ ''_1of3.jpg'')),
            Hold 2000,
            Show (next_handle w + 2) (path_join (script_dir (env w)) (p @ s @ ''_2of3.jpg'')),
            Hide (next_handle w + 1),
            Hold 2000,
            Show (next_handle w + 3) (path_join (script_dir (env w)) (p @ s @ ''_3of3.jpg'')),
            Hide (next_handle w + 2),
            Hold 2000,
            Hide (next_handle w + 3),
            Show (next_handle w + 4) (path_join (script_dir (env w)) ''Assets/all_done.png''),
            Hold 2000,
            Hide (next_handle w + 4)]
       \<and> (\<forall>j. 4 \<le> j \<and> j \<le> 11 \<longrightarrow>
             set (shown (take j (drop (length (timeline (trace w))) (timeline (trace w')))))
               \<inter> {next_handle w + 1, next_handle w + 2, next_handle w + 3} \<noteq> {})"
proof -
  define acts where "acts =
           [Show (next_handle w) (path_join (script_dir (env w)) ''Assets/processing.png''),
            Hold 2000,
            Hide (next_handle w),
            Show (next_handle w + 1) (path_join (script_dir (env w)) (p @ s @ ''_1of3.jpg'')),
            Hold 2000,
            Show (next_handle w + 2) (path_join (script_dir (env w)) (p @ s @ ''_2of3.jpg'')),
            Hide (next_handle w + 1),
            Hold 2000,
            Show (next_handle w + 3) (path_join (script_dir (env w)) (p @ s @ ''_3of3.jpg'')),
            Hide (next_handle w + 2),
            Hold 2000,
            Hide (next_handle w + 3),
            Show (next_handle w + 4) (path_join (script_dir (env w)) ''Assets/all_done.png''),
            Hold 2000,
            Hide (next_handle w + 4)]"
  have tl: "timeline (trace w') = timeline (trace w) @ acts"
    using playback_Ok[OF assms] by (simp add: acts_def)
  have dr: "drop (length (timeline (trace w))) (timeline (trace w')) = acts"
    unfolding tl by simp
  have "set (shown (take j acts))
          \<inter> {next_handle w + 1, next_handle w + 2, next_handle w + 3} \<noteq> {}"
    if "4 \<le> j" "j \<le> 11" for j
  proof -
    from that consider "j = 4" | "j = 5" | "j = 6" | "j = 7" | "j = 8" | "j = 9" | "j = 10"
      | "j = 11"
      by linarith
    then show ?thesis
      by cases (simp_all add: acts_def shown_def)
  qed
  then show ?thesis unfolding dr using tl by (simp add: acts_def)
qed

lemmas exec_defs = shots.simps photo_screen_def take_photo_def countdown_321 camera_capture_def
  overlay_image_def remove_overlay_def camera_remove_overlay_def and_then_def Let_def
  emit_def logging_def sleep_def path_join_def str_int_digits demo_images_simps
  playback_def playback_loop.simps upto_1_3

lemma demo_env_simps:
  "script_dir demo_env = ''/home/pi/Photobooth''" "default_alpha demo_env = 255"
  "capture_ok demo_env = (\<lambda>p. True)" "makedirs_ok demo_env = (\<lambda>p. True)"
  "media demo_env = Some [''USB1'']"
  by (simp_all add: demo_env_def)

lemma is_Ok_eq: "is_Ok r \<Longrightarrow> r = Ok (value_of r) (world_of r)"
  by (cases r) simp_all

lemma shot_world_facts:
  "next_handle shot_world = 3" "env shot_world = demo_env"
  unfolding shot_world_def demo_world_def
  by (simp_all add: exec_defs demo_env_simps)

text \<open>The playback after the three shots of the demo kiosk.\<close>

theorem playback_overlap_witness:
  "is_Ok (playback 3 ''/media/pi/USB1/photobooth/'' ''2024-01-01_12-00-00'' shot_world)
   \<and> timeline (trace (world_of
         (playback 3 ''/media/pi/USB1/photobooth/'' ''2024-01-01_12-00-00'' shot_world))) =
       timeline (trace shot_world) @
       [Show 3 ''/home/pi/Photobooth/Assets/processing.png'', Hold 2000, Hide 3,
        Show 4 ''/media/pi/USB1/photobooth/2024-01-01_12-00-00_1of3.jpg'', Hold 2000,
        Show 5 ''/media/pi/USB1/photobooth/2024-01-01_12-00-00_2of3.jpg'', Hide 4, Hold 2000,
        Show 6 ''/media/pi/USB1/photobooth/2024-01-01_12-00-00_3of3.jpg'', Hide 5, Hold 2000,
        Hide 6,
        Show 7 ''/home/pi/Photobooth/Assets/all_done.png'', Hold 2000, Hide 7]"
proof -
  have ok: "is_Ok (playback 3 ''/media/pi/USB1/photobooth/'' ''2024-01-01_12-00-00'' shot_world)"
    unfolding shot_world_def demo_world_def
    by (simp add: exec_defs demo_env_simps)
  then have eq: "playback 3 ''/media/pi/USB1/photobooth/'' ''2024-01-01_12-00-00'' shot_world =
      Ok (value_of (playback 3 ''/media/pi/USB1/photobooth/'' ''2024-01-01_12-00-00'' shot_world))
         (world_of (playback 3 ''/media/pi/USB1/photobooth/'' ''2024-01-01_12-00-00'' shot_world))"
    by (rule is_Ok_eq)
  show ?thesis
    using ok playback_overlap[OF eq]
    by (simp add: shot_world_facts demo_env_simps path_join_def)
qed

section \<open>A session\<close>

lemma set_filename_env: "env a = env b \<Longrightarrow> set_filename a = set_filename b"
  by (simp add: set_filename_def)

lemma scan_mounts_frame:
  "photos (snd (scan_mounts ds pp w)) = photos w
   \<and> live (snd (scan_mounts ds pp w)) = live w
   \<and> next_handle (snd (scan_mounts ds pp w)) = next_handle w
   \<and> timeline (trace (snd (scan_mounts ds pp w))) = timeline (trace w)"
  by (induction ds arbitrary: pp w) (simp_all add: Let_def live_def logging_def emit_def)

lemma scan_mounts_cong:
  "env w = env v \<Longrightarrow> dirs w = dirs v \<Longrightarrow>
   fst (scan_mounts ds pp w) = fst (scan_mounts ds pp v)"
proof (induction ds arbitrary: pp w v)
  case Nil
  show ?case by simp
next
  case (Cons d ds)
  define p where "p = path_join ''/media/pi/'' d @ ''/photobooth/''"
  have a: "fst (scan_mounts ds p (logging INFO ''creating new folder'' (w\<lparr>dirs := (dirs w)(p := True)\<rparr>)))
         = fst (scan_mounts ds p (logging INFO ''creating new folder'' (v\<lparr>dirs := (dirs v)(p := True)\<rparr>)))"
    using Cons.prems by (intro Cons.IH) simp_all
  have b: "fst (scan_mounts ds [] (logging INFO ''error creating dir'' w))
         = fst (scan_mounts ds [] (logging INFO ''error creating dir'' v))"
    using Cons.prems by (intro Cons.IH) simp_all
  have c: "fst (scan_mounts ds p w) = fst (scan_mounts ds p v)"
    using Cons.prems by (intro Cons.IH) simp_all
  show ?case
    using a b c Cons.prems by (simp add: Let_def p_def[symmetric])
qed

lemma set_default_path_Ok:
  assumes "set_default_path w = Ok p w'"
  shows "env w' = env w \<and> photos w' = photos w \<and> live w' = live w
       \<and> next_handle w' = next_handle w
       \<and> timeline (trace w') = timeline (trace w)"
proof -
  from assms obtain ds where ds: "media (env w) = Some ds"
    by (auto simp: set_default_path_def split: option.splits)
  define w1 where "w1 = snd (scan_mounts ds [] w)"
  have "\<exists>msg. w' = logging INFO msg w1"
    using assms ds by (auto simp: set_default_path_def split_beta Let_def w1_def)
  then show ?thesis
    using scan_mounts_frame[of ds "[]" w] scan_mounts_env[of ds "[]" w]
    by (auto simp: w1_def)
qed

text \<open>The path depends on the surroundings and the directories alone.\<close>

lemma set_default_path_value:
  assumes "set_default_path v = Ok p v'" and "env v = env w" and "dirs v = dirs w"
  shows "is_Ok (set_default_path w) \<and> value_of (set_default_path w) = p"
proof -
  from assms obtain ds where ds: "media (env w) = Some ds"
    by (auto simp: set_default_path_def split: option.splits)
  have c: "fst (scan_mounts ds [] v) = fst (scan_mounts ds [] w)"
    using assms(2,3) by (rule scan_mounts_cong)
  show ?thesis
    using assms ds c scan_mounts_env[of ds "[]" w] scan_mounts_env[of ds "[]" v]
    by (auto simp: set_default_path_def split_beta Let_def)
qed

text \<open>The three shots of a session.\<close>

lemma shots_Ok:
  assumes "shots [0, 1, 2] (i0, 1) p s w = Ok v w'"
  shows "v = (2, 4)
       \<and> env w' = env w \<and> dirs w' = dirs w
       \<and> photos w' = photos w @ [p @ s @ ''_1of3.jpg'', p @ s @ ''_2of3.jpg'', p @ s @ ''_3of3.jpg'']
       \<and> set (live w') \<subseteq> set (live w)
       \<and> next_handle w' = next_handle w + 3
       \<and> timeline (trace w') = timeline (trace w) @
           [Show (next_handle w) (path_join (script_dir (env w)) ''Assets/get_ready_1.png''),
            Hold 2000, Hide (next_handle w),
            Hold 1000, Hold 1000, Hold 1000, Shot (p @ s @ ''_1of3.jpg''),
            Show (next_handle w + 1) (path_join (script_dir (env w)) ''Assets/get_ready_2.png''),
            Hold 2000, Hide (next_handle w + 1),
            Hold 1000, Hold 1000, Hold 1000, Shot (p @ s @ ''_2of3.jpg''),
            Show (next_handle w + 2) (path_join (script_dir (env w)) ''Assets/get_ready_3.png''),
            Hold 2000, Hide (next_handle w + 2),
            Hold 1000, Hold 1000, Hold 1000, Shot (p @ s @ ''_3of3.jpg'')]"
proof -
  from assms obtain u1 a1 t1 b1 u2 a2 t2 b2 u3 a3 t3 where
    s1: "photo_screen 1 w = Ok u1 a1" and p1: "take_photo 1 p s a1 = Ok t1 b1"
    and s2: "photo_screen 2 b1 = Ok u2 a2" and p2: "take_photo 2 p s a2 = Ok t2 b2"
    and s3: "photo_screen 3 b2 = Ok u3 a3" and p3: "take_photo 3 p s a3 = Ok t3 w'"
    and v: "v = (2, 4)"
    by (auto simp: and_then_Ok_iff Let_def)
  note e = photo_screen_Ok[OF s1] take_photo_Ok[OF p1] photo_screen_Ok[OF s2]
    take_photo_Ok[OF p2] photo_screen_Ok[OF s3] take_photo_Ok[OF p3]
  have sub: "set (live w') \<subseteq> set (live w)"
    using e by auto
  have rest: "env w' = env w" "dirs w' = dirs w"
    "photos w' = photos w @ [p @ s @ ''_1of3.jpg'', p @ s @ ''_2of3.jpg'', p @ s @ ''_3of3.jpg'']"
    "next_handle w' = next_handle w + 3"
    using e by (simp_all add: str_int_digits)
  have tl: "timeline (trace w') = timeline (trace w) @
           [Show (next_handle w) (path_join (script_dir (env w)) ''Assets/get_ready_1.png''),
            Hold 2000, Hide (next_handle w),
            Hold 1000, Hold 1000, Hold 1000, Shot (p @ s @ ''_1of3.jpg''),
            Show (next_handle w + 1) (path_join (script_dir (env w)) ''Assets/get_ready_2.png''),
            Hold 2000, Hide (next_handle w + 1),
            Hold 1000, Hold 1000, Hold 1000, Shot (p @ s @ ''_2of3.jpg''),
            Show (next_handle w + 2) (path_join (script_dir (env w)) ''Assets/get_ready_3.png''),
            Hold 2000, Hide (next_handle w + 2),
            Hold 1000, Hold 1000, Hold 1000, Shot (p @ s @ ''_3of3.jpg'')]"
    using e by (simp add: str_int_digits)
  show ?thesis using v sub rest tl by blast
qed

lemma session_steps:
  assumes "session l w = Ok l' w'"
  shows "\<exists>u1 w1 u2 w2 fp w3 v w4 u5 w5 o1 w6 o2.
           remove_overlay (intro_image_1 l) (logging INFO ''Button is pressed!'' w) = Ok u1 w1
         \<and> remove_overlay (intro_image_2 l) w1 = Ok u2 w2
         \<and> set_default_path w2 = Ok fp w3
         \<and> shots [0, 1, 2] (i l, 1) fp (set_filename w3) w3 = Ok v w4
         \<and> playback 3 fp (set_filename w3) w4 = Ok u5 w5
         \<and> overlay_image ''Assets/intro_1.png'' 0 3 w5 = Ok o1 w6
         \<and> overlay_image ''Assets/intro_2.png'' 0 4 w6 = Ok o2 w'
         \<and> l' = l\<lparr>i := fst v, intro_image_1 := o1, intro_image_2 := o2\<rparr>"
  using assms by (auto simp: session_def and_then_Ok_iff Let_def)

text \<open>What a session that returns leaves in the variables of \<open>main\<close>.\<close>

lemma session_locals:
  assumes "session l w = Ok l' w'"
  shows "i l' = 2 \<and> (\<exists>h. intro_image_2 l' = Overlay h \<and> h \<in> handle ` set (overlays w'))"
proof -
  from session_steps[OF assms] obtain fp w3 v w4 w6 o1 o2 where
    sh: "shots [0, 1, 2] (i l, 1) fp (set_filename w3) w3 = Ok v w4"
    and b: "overlay_image ''Assets/intro_2.png'' 0 4 w6 = Ok o2 w'"
    and l': "l' = l\<lparr>i := fst v, intro_image_1 := o1, intro_image_2 := o2\<rparr>"
    by blast
  have v: "v = (2, 4)" using shots_Ok[OF sh] by simp
  have o2: "o2 = Overlay (next_handle w6)" and lv: "live w' = live w6 @ [next_handle w6]"
    using overlay_image_untimed[OF b] by simp_all
  have "next_handle w6 \<in> set (live w')"
    unfolding lv by simp
  then have "next_handle w6 \<in> handle ` set (overlays w')"
    unfolding live_def by simp
  then show ?thesis using v o2 l' by auto
qed

text \<open>
  Claim C2. Take the loop of \<open>main\<close> in its idle state: the two intro overlays \<open>h1\<close> and
  \<open>h2\<close> held in its variables are the only overlays on screen. If the iteration started
  by a button edge returns, then exactly three photos were written, with the indices 1, 2,
  3 in this order, and the timeline of the iteration is: the two intro overlays hidden;
  for each shot a get-ready overlay shown and hidden, then the capture; the processing
  overlay shown and hidden; the three photo overlays shown and each hidden; the done
  overlay shown and hidden; the two intro overlays shown anew. Every one of the ten
  overlays (two intro, three get-ready, processing, three photos, done) is hidden, and the
  only overlays on screen at the end are the two new intro overlays that the variables of
  \<open>main\<close> hold: the loop is in its idle state again.
\<close>

theorem session_cycle:
  assumes "main_body Detected l w = Ok l' w'"
    and "intro_image_1 l = Overlay h1" and "intro_image_2 l = Overlay h2"
    and "live w = [h1, h2]"
  shows "(let n = next_handle w; sd = script_dir (env w);
              p = value_of (set_default_path w); s = set_filename w
          in photos w' = photos w @ [p @ s @ ''_1of3.jpg'', p @ s @ ''_2of3.jpg'', p @ s @ ''_3of3.jpg'']
           \<and> timeline (trace w') = timeline (trace w) @
               [Hide h1, Hide h2,
                Show n (path_join sd ''Assets/get_ready_1.png''), Hold 2000, Hide n,
                Hold 1000, Hold 1000, Hold 1000, Shot (p @ s @ ''_1of3.jpg''),
                Show (n + 1) (path_join sd ''Assets/get_ready_2.png''), Hold 2000, Hide (n + 1),
                Hold 1000, Hold 1000, Hold 1000, Shot (p @ s @ ''_2of3.jpg''),
                Show (n + 2) (path_join sd ''Assets/get_ready_3.png''), Hold 2000, Hide (n + 2),
                Hold 1000, Hold 1000, Hold 1000, Shot (p @ s @ ''_3of3.jpg''),
                Show (n + 3) (path_join sd ''Assets/processing.png''), Hold 2000, Hide (n + 3),
                Show (n + 4) (path_join sd (p @ s @ ''_1of3.jpg'')), Hold 2000,
                Show (n + 5) (path_join sd (p @ s @ ''_2of3.jpg'')), Hide (n + 4), Hold 2000,
                Show (n + 6) (path_join sd (p @ s @ ''_3of3.jpg'')), Hide (n + 5), Hold 2000,
                Hide (n + 6),
                Show (n + 7) (path_join sd ''Assets/all_done.png''), Hold 2000, Hide (n + 7),
                Show (n + 8) (path_join sd ''Assets/intro_1.png''),
                Show (n + 9) (path_join sd ''Assets/intro_2.png'')]
           \<and> live w' = [n + 8, n + 9]
           \<and> intro_image_1 l' = Overlay (n + 8) \<and> intro_image_2 l' = Overlay (n + 9))"
proof -
  have ses: "session l w = Ok l' w'"
    using assms(1) by (simp add: main_body_def)
  from session_steps[OF ses] obtain u1 w1 u2 w2 fp w3 v w4 u5 w5 o1 w6 o2 where
    r1: "remove_overlay (intro_image_1 l) (logging INFO ''Button is pressed!'' w) = Ok u1 w1"
    and r2: "remove_overlay (intro_image_2 l) w1 = Ok u2 w2"
    and sp: "set_default_path w2 = Ok fp w3"
    and sh: "shots [0, 1, 2] (i l, 1) fp (set_filename w3) w3 = Ok v w4"
    and pb: "playback 3 fp (set_filename w3) w4 = Ok u5 w5"
    and a1: "overlay_image ''Assets/intro_1.png'' 0 3 w5 = Ok o1 w6"
    and a2: "overlay_image ''Assets/intro_2.png'' 0 4 w6 = Ok o2 w'"
    and l': "l' = l\<lparr>i := fst v, intro_image_1 := o1, intro_image_2 := o2\<rparr>"
    by blast
  note e1 = remove_overlay_Ok[OF r1[unfolded assms(2)]]
  note e2 = remove_overlay_Ok[OF r2[unfolded assms(3)]]
  have f1: "env w1 = env w" "dirs w1 = dirs w" "photos w1 = photos w"
    "next_handle w1 = next_handle w" "timeline (trace w1) = timeline (trace w) @ [Hide h1]"
    "live w1 = filter (\<lambda>x. x \<noteq> h1) [h1, h2]"
    using e1 assms(4) by simp_all
  have "h2 \<in> set (live w1)" using e2 by simp
  then have ne: "h2 \<noteq> h1" unfolding f1(6) by auto
  have f2: "env w2 = env w" "dirs w2 = dirs w" "photos w2 = photos w"
    "next_handle w2 = next_handle w"
    "timeline (trace w2) = timeline (trace w) @ [Hide h1, Hide h2]" "live w2 = []"
    using e2 f1 ne by simp_all
  note e3 = set_default_path_Ok[OF sp]
  have fp: "value_of (set_default_path w) = fp"
    using set_default_path_value[OF sp f2(1,2)] by simp
  have f3: "env w3 = env w" "photos w3 = photos w" "next_handle w3 = next_handle w"
    "timeline (trace w3) = timeline (trace w) @ [Hide h1, Hide h2]" "live w3 = []"
    using e3 f2 by simp_all
  have st: "set_filename w3 = set_filename w"
    using f3(1) by (rule set_filename_env)
  note e4 = shots_Ok[OF sh[unfolded st]]
  have f4: "env w4 = env w" "next_handle w4 = next_handle w + 3" "live w4 = []"
    "photos w4 = photos w @ [fp @ set_filename w @ ''_1of3.jpg'',
        fp @ set_filename w @ ''_2of3.jpg'', fp @ set_filename w @ ''_3of3.jpg'']"
    using e4 f3 by simp_all
  note e5 = playback_Ok[OF pb[unfolded st]]
  have f5: "env w5 = env w" "next_handle w5 = next_handle w + 8" "live w5 = []"
    "photos w5 = photos w4"
    using e5 f4 by simp_all
  note e6 = overlay_image_untimed[OF a1]
  note e7 = overlay_image_untimed[OF a2]
  have o: "o1 = Overlay (next_handle w + 8)" "o2 = Overlay (next_handle w + 9)"
    using e6 e7 f5 by simp_all
  have lv: "live w' = [next_handle w + 8, next_handle w + 9]"
    using e6 e7 f5 by simp
  have ph: "photos w' = photos w @ [fp @ set_filename w @ ''_1of3.jpg'',
        fp @ set_filename w @ ''_2of3.jpg'', fp @ set_filename w @ ''_3of3.jpg'']"
    using e6 e7 f5 f4 by simp
  have t4: "timeline (trace w4) = timeline (trace w) @ [Hide h1, Hide h2] @
           [Show (next_handle w) (path_join (script_dir (env w)) ''Assets/get_ready_1.png''),
            Hold 2000, Hide (next_handle w),
            Hold 1000, Hold 1000, Hold 1000, Shot (fp @ set_filename w @ ''_1of3.jpg''),
            Show (next_handle w + 1) (path_join (script_dir (env w)) ''Assets/get_ready_2.png''),
            Hold 2000, Hide (next_handle w + 1),
            Hold 1000, Hold 1000, Hold 1000, Shot (fp @ set_filename w @ ''_2of3.jpg''),
            Show (next_handle w + 2) (path_join (script_dir (env w)) ''Assets/get_ready_3.png''),
            Hold 2000, Hide (next_handle w + 2),
            Hold 1000, Hold 1000, Hold 1000, Shot (fp @ set_filename w @ ''_3of3.jpg'')]"
    using e4 f3 by simp
  have t5: "timeline (trace w5) = timeline (trace w4) @
           [Show (next_handle w + 3) (path_join (script_dir (env w)) ''Assets/processing.png''),
            Hold 2000, Hide (next_handle w + 3),
            Show (next_handle w + 4) (path_join (script_dir (env w)) (fp @ set_filename w @ ''_1of3.jpg'')),
            Hold 2000,
            Show (next_handle w + 5) (path_join (script_dir (env w)) (fp @ set_filename w @ ''_2of3.jpg'')),
            Hide (next_handle w + 4), Hold 2000,
            Show (next_handle w + 6) (path_join (script_dir (env w)) (fp @ set_filename w @ ''_3of3.jpg'')),
            Hide (next_handle w + 5), Hold 2000,
            Hide (next_handle w + 6),
            Show (next_handle w + 7) (path_join (script_dir (env w)) ''Assets/all_done.png''),
            Hold 2000, Hide (next_handle w + 7)]"
    using e5 f4 by (simp add: add.commute)
  have t7: "timeline (trace w') = timeline (trace w5) @
           [Show (next_handle w + 8) (path_join (script_dir (env w)) ''Assets/intro_1.png''),
            Show (next_handle w + 9) (path_join (script_dir (env w)) ''Assets/intro_2.png'')]"
    using e6 e7 f5 by simp
  show ?thesis
    unfolding Let_def fp t7 t5 t4 using ph lv o l' by simp
qed

text \<open>A session of the demo kiosk, evaluated.\<close>

lemma set_filename_demo: "env w = demo_env \<Longrightarrow> set_filename w = ''2024-01-01_12-00-00''"
  unfolding set_filename_form by (simp add: demo_env_def zero_pad_demo)

lemma idle_world_explicit:
  "idle_world =
     \<lparr>env = demo_env,
      trace = [Log INFO ''Main program started'', StartPreview,
               AddOverlay 0 ''/home/pi/Photobooth/Assets/intro_1.png'' (1024, 608) (1024, 600),
               Log INFO ''Created overlay Assets/intro_1.png'',
               AddOverlay 1 ''/home/pi/Photobooth/Assets/intro_2.png'' (1024, 608) (1024, 600),
               Log INFO ''Created overlay Assets/intro_2.png''],
      overlays = [\<lparr>handle = 0, source = ''/home/pi/Photobooth/Assets/intro_1.png'',
                    buffer = (1024, 608), window = (1024, 600), layer = 3, oid = 3, alpha = 255\<rparr>,
                  \<lparr>handle = 1, source = ''/home/pi/Photobooth/Assets/intro_2.png'',
                    buffer = (1024, 608), window = (1024, 600), layer = 4, oid = 4, alpha = 255\<rparr>],
      next_handle = 2, images = demo_images, dirs = (\<lambda>p. False), photos = [],
      annotate_text = [], led = False, preview = True\<rparr>"
  by (simp add: idle_world_def main_def overlay_image_def Let_def and_then_def emit_def
      logging_def demo_world_def demo_env_simps path_join_def demo_images_simps pad_size_def)

lemma demo_path:
  "set_default_path
     (w\<lparr>env := demo_env, dirs := (\<lambda>p. False)\<rparr>) =
   Ok ''/media/pi/USB1/photobooth/''
     (logging INFO ''Saving to: /media/pi/USB1/photobooth/''
        (logging INFO ''creating new folder''
           (w\<lparr>env := demo_env, dirs := (\<lambda>p. False)(''/media/pi/USB1/photobooth/'' := True)\<rparr>)))"
  by (simp add: set_default_path_def demo_env_simps Let_def path_join_def)

lemma demo_session_ok: "is_Ok (session idle_locals idle_world)"
  unfolding idle_world_explicit idle_locals_def session_def
  by (simp add: exec_defs demo_env_simps set_default_path_def set_filename_demo)

lemma idle_world_facts:
  "next_handle idle_world = 2" "photos idle_world = []" "env idle_world = demo_env"
  "live idle_world = [0, 1]" "set_filename idle_world = ''2024-01-01_12-00-00''"
  "value_of (set_default_path idle_world) = ''/media/pi/USB1/photobooth/''"
  unfolding idle_world_explicit
  by (simp_all add: live_def set_filename_demo set_default_path_def demo_env_simps Let_def
      path_join_def logging_def emit_def)

theorem session_cycle_witness:
  "is_Ok (main_body Detected idle_locals idle_world)
   \<and> intro_image_1 idle_locals = Overlay 0 \<and> intro_image_2 idle_locals = Overlay 1
   \<and> live idle_world = [0, 1]
   \<and> photos (world_of (main_body Detected idle_locals idle_world)) =
       [''/media/pi/USB1/photobooth/2024-01-01_12-00-00_1of3.jpg'',
        ''/media/pi/USB1/photobooth/2024-01-01_12-00-00_2of3.jpg'',
        ''/media/pi/USB1/photobooth/2024-01-01_12-00-00_3of3.jpg'']
   \<and> live (world_of (main_body Detected idle_locals idle_world)) = [10, 11]
   \<and> intro_image_1 (value_of (main_body Detected idle_locals idle_world)) = Overlay 10
   \<and> intro_image_2 (value_of (main_body Detected idle_locals idle_world)) = Overlay 11"
proof -
  have ok: "is_Ok (main_body Detected idle_locals idle_world)"
    using demo_session_ok by (simp add: main_body_def)
  have h1: "intro_image_1 idle_locals = Overlay 0" and h2: "intro_image_2 idle_locals = Overlay 1"
    by (simp_all add: idle_locals_def)
  have h3: "live idle_world = [0, 1]" by (rule idle_world_facts)
  show ?thesis
    using ok h1 h2 h3 session_cycle[OF is_Ok_eq[OF ok] h1 h2 h3]
    by (simp add: Let_def idle_world_facts)
qed

text \<open>
  Claim C10. After an iteration started by a button edge, the tick counter is 2, the last
  value of the loop variable of the three shots, not 0. In the idle polls that follow, the
  counter after \<open>k\<close> polls is \<open>(2 + k) mod 20\<close>: the first seven polls only sleep, the
  eighth sets the alpha of the second intro overlay to 255 and switches the LED on, and
  from then on the blink follows the counter as in the idle loop (off at poll 18, on at
  poll 28, and so on).
\<close>

theorem tick_counter_after_session:
  assumes "main_body Detected l w = Ok l' w'"
  shows "i l' = 2
       \<and> (\<exists>h. intro_image_2 l' = Overlay h
            \<and> (\<forall>k. \<exists>l1 w1.
                  main_loop (replicate k Timeout) l' w' = Ok l1 w1
                \<and> i l1 = int ((2 + k) mod 20)
                \<and> (k < 8 \<longrightarrow> trace w1 = trace w' @ replicate k (Sleep 100))
                \<and> (k = 8 \<longrightarrow> trace w1 = trace w' @ replicate 7 (Sleep 100) @
                                        [SetAlpha h 255, Led True, Sleep 100])
                \<and> (8 \<le> k \<longrightarrow> alpha_of h w1 = Some (if 10 \<le> (2 + k) mod 20 then 255 else 0)
                               \<and> led w1 = (10 \<le> (2 + k) mod 20))))"
proof -
  have ses: "session l w = Ok l' w'"
    using assms by (simp add: main_body_def)
  from session_locals[OF ses] obtain h where
    i2: "i l' = 2" and h: "intro_image_2 l' = Overlay h" "h \<in> handle ` set (overlays w')"
    by blast
  have i2': "i l' = int 2" using i2 by simp
  have "\<exists>l1 w1.
          main_loop (replicate k Timeout) l' w' = Ok l1 w1
        \<and> i l1 = int ((2 + k) mod 20)
        \<and> (k < 8 \<longrightarrow> trace w1 = trace w' @ replicate k (Sleep 100))
        \<and> (k = 8 \<longrightarrow> trace w1 = trace w' @ replicate 7 (Sleep 100) @
                                [SetAlpha h 255, Led True, Sleep 100])
        \<and> (8 \<le> k \<longrightarrow> alpha_of h w1 = Some (if 10 \<le> (2 + k) mod 20 then 255 else 0)
                       \<and> led w1 = (10 \<le> (2 + k) mod 20))" for k
  proof -
    from idle_run[OF i2' _ h, of k] obtain w1 where w1:
      "main_loop (replicate k Timeout) l' w' = Ok (l'\<lparr>i := int ((2 + k) mod 20)\<rparr>) w1"
      "if 2 + k < 10
       then alpha_of h w1 = alpha_of h w' \<and> led w1 = led w'
            \<and> trace w1 = trace w' @ replicate k (Sleep 100)
       else alpha_of h w1 = Some (if 10 \<le> (2 + k) mod 20 then 255 else 0)
            \<and> led w1 = (10 \<le> (2 + k) mod 20)"
      by auto
    have a: "k < 8 \<longrightarrow> trace w1 = trace w' @ replicate k (Sleep 100)"
      using w1(2) by simp
    have b: "8 \<le> k \<longrightarrow> alpha_of h w1 = Some (if 10 \<le> (2 + k) mod 20 then 255 else 0)
                       \<and> led w1 = (10 \<le> (2 + k) mod 20)"
      using w1(2) by simp
    have c: "k = 8 \<longrightarrow> trace w1 = trace w' @ replicate 7 (Sleep 100) @
                                [SetAlpha h 255, Led True, Sleep 100]"
    proof
      assume k: "k = 8"
      from idle_run[OF i2' _ h, of 7] obtain w7 where w7:
        "main_loop (replicate 7 Timeout) l' w' = Ok (l'\<lparr>i := int 9\<rparr>) w7"
        "handle ` set (overlays w7) = handle ` set (overlays w')"
        "trace w7 = trace w' @ replicate 7 (Sleep 100)"
        by auto
      have l7: "i (l'\<lparr>i := int 9\<rparr>) = int 9" "intro_image_2 (l'\<lparr>i := int 9\<rparr>) = Overlay h"
        "h \<in> handle ` set (overlays w7)"
        using h w7(2) by simp_all
      from idle_tick[OF l7] obtain w8 where w8:
        "main_body Timeout (l'\<lparr>i := int 9\<rparr>) w7 = Ok (l'\<lparr>i := 10\<rparr>) w8"
        "trace w8 = trace w7 @ [SetAlpha h 255, Led True, Sleep 100]"
        by auto
      have "main_loop (replicate (Suc 7) Timeout) l' w' = Ok (l'\<lparr>i := 10\<rparr>) w8"
        unfolding main_loop_snoc w7(1) using w8(1) by (simp add: and_then_def)
      then have "w1 = w8" using w1(1) k by simp
      then show "trace w1 = trace w' @ replicate 7 (Sleep 100) @
                   [SetAlpha h 255, Led True, Sleep 100]"
        using w8(2) w7(3) by simp
    qed
    show ?thesis using w1(1) a b c by auto
  qed
  then show ?thesis using i2 h(1) by blast
qed

theorem tick_counter_after_session_witness:
  "is_Ok (main_body Detected idle_locals idle_world)
   \<and> i (value_of (main_body Detected idle_locals idle_world)) = 2
   \<and> i (value_of (main_loop (replicate 8 Timeout)
          (value_of (main_body Detected idle_locals idle_world))
          (world_of (main_body Detected idle_locals idle_world)))) = 10
   \<and> led (world_of (main_loop (replicate 8 Timeout)
          (value_of (main_body Detected idle_locals idle_world))
          (world_of (main_body Detected idle_locals idle_world))))"
proof -
  have ok: "is_Ok (main_body Detected idle_locals idle_world)"
    using demo_session_ok by (simp add: main_body_def)
  define l' where "l' = value_of (main_body Detected idle_locals idle_world)"
  define w' where "w' = world_of (main_body Detected idle_locals idle_world)"
  have eq: "main_body Detected idle_locals idle_world = Ok l' w'"
    unfolding l'_def w'_def using ok by (rule is_Ok_eq)
  note t = tick_counter_after_session[OF eq]
  have i2: "i l' = 2" using t by (rule conjunct1)
  from conjunct2[OF t] obtain h where
    full: "\<forall>k. \<exists>l1 w1.
                  main_loop (replicate k Timeout) l' w' = Ok l1 w1
                \<and> i l1 = int ((2 + k) mod 20)
                \<and> (k < 8 \<longrightarrow> trace w1 = trace w' @ replicate k (Sleep 100))
                \<and> (k = 8 \<longrightarrow> trace w1 = trace w' @ replicate 7 (Sleep 100) @
                                        [SetAlpha h 255, Led True, Sleep 100])
                \<and> (8 \<le> k \<longrightarrow> alpha_of h w1 = Some (if 10 \<le> (2 + k) mod 20 then 255 else 0)
                               \<and> led w1 = (10 \<le> (2 + k) mod 20))"
    by (elim exE conjE)
  from spec[OF full, of 8] obtain l1 w1 where
    r: "main_loop (replicate 8 Timeout) l' w' = Ok l1 w1"
    and i1: "i l1 = int ((2 + 8) mod 20)"
    and c: "(8::nat) \<le> 8 \<longrightarrow> alpha_of h w1 = Some (if 10 \<le> (2 + 8 :: nat) mod 20 then 255 else 0)
                             \<and> led w1 = (10 \<le> (2 + 8 :: nat) mod 20)"
    by (elim exE conjE)
  have i10: "i l1 = 10" using i1 by simp
  have led1: "led w1" using c by simp
  have "is_Ok (main_body Detected idle_locals idle_world)
      \<and> i l' = 2
      \<and> i (value_of (main_loop (replicate 8 Timeout) l' w')) = 10
      \<and> led (world_of (main_loop (replicate 8 Timeout) l' w'))"
    unfolding r using ok i2 i10 led1 by simp
  then show ?thesis unfolding l'_def w'_def .
qed

section \<open>Exceptions that leave \<open>main\<close>\<close>

text \<open>
  No function of the script raises \<open>SystemExit\<close>: what leaves \<open>main\<close> is the operator's
  interrupt or an exception of class \<open>Exception\<close>.
\<close>

lemma remove_overlay_raises:
  "remove_overlay v w = Raised e w' \<Longrightarrow> e \<noteq> SystemExit"
  by (auto simp: remove_overlay_def camera_remove_overlay_def and_then_Raised_iff
      split: if_splits pyval.splits option.splits)

lemma overlay_image_raises:
  "overlay_image image_name duration lay w = Raised e w' \<Longrightarrow> e \<noteq> SystemExit"
  by (auto simp: overlay_image_def Let_def and_then_Raised_iff
      split: option.splits if_splits dest: remove_overlay_raises)

lemma photo_screen_raises:
  "photo_screen n w = Raised e w' \<Longrightarrow> e \<noteq> SystemExit"
  by (auto simp: photo_screen_def and_then_Raised_iff
      dest: remove_overlay_raises overlay_image_raises)

lemma take_photo_raises:
  "take_photo n p s w = Raised e w' \<Longrightarrow> e \<noteq> SystemExit"
  by (auto simp: take_photo_def camera_capture_def Let_def and_then_Raised_iff
      split: if_splits)

lemma shots_raises:
  "shots xs v p s w = Raised e w' \<Longrightarrow> e \<noteq> SystemExit"
proof (induction xs arbitrary: v w)
  case Nil
  then show ?case by simp
next
  case (Cons x xs)
  then show ?case
    by (auto simp: Let_def and_then_Raised_iff dest: photo_screen_raises take_photo_raises)
qed

lemma playback_loop_raises:
  "playback_loop ns tp p s prev w = Raised e w' \<Longrightarrow> e \<noteq> SystemExit"
proof (induction ns arbitrary: prev w)
  case Nil
  then show ?case by simp
next
  case (Cons n ns)
  then show ?case
    by (auto simp: Let_def and_then_Raised_iff split: if_splits
        dest: overlay_image_raises remove_overlay_raises)
qed

lemma playback_raises:
  "playback tp p s w = Raised e w' \<Longrightarrow> e \<noteq> SystemExit"
  by (auto simp: playback_def and_then_Raised_iff
      dest: overlay_image_raises remove_overlay_raises playback_loop_raises)

lemma set_default_path_raises:
  "set_default_path w = Raised e w' \<Longrightarrow> e \<noteq> SystemExit"
  by (auto simp: set_default_path_def split_beta Let_def split: option.splits)

lemma session_raises:
  "session l w = Raised e w' \<Longrightarrow> e \<noteq> SystemExit"
  by (auto simp: session_def Let_def and_then_Raised_iff
      simp del: shots.simps
      dest: overlay_image_raises remove_overlay_raises playback_raises shots_raises
        set_default_path_raises)

lemma set_alpha_raises:
  "set_alpha v a w = Raised e w' \<Longrightarrow> e \<noteq> SystemExit"
  by (auto simp: set_alpha_def split: pyval.splits if_splits)

lemma main_body_raises:
  "main_body ed l w = Raised e w' \<Longrightarrow> e \<noteq> SystemExit"
  by (cases ed)
    (auto simp: main_body_def Let_def and_then_Raised_iff split: if_splits
      dest: set_alpha_raises session_raises)

lemma main_loop_raises:
  "main_loop es l w = Raised e w' \<Longrightarrow> e \<noteq> SystemExit"
proof (induction es arbitrary: l w)
  case Nil
  then show ?case by simp
next
  case (Cons ed es)
  then show ?case
    by (auto simp: and_then_Raised_iff dest: main_body_raises)
qed

lemma main_raises:
  "main es w = Raised e w' \<Longrightarrow> e \<noteq> SystemExit"
  by (auto simp: main_def Let_def and_then_Raised_iff
      dest: overlay_image_raises main_loop_raises)

text \<open>Once an exception has left the loop, later edges are never looked at.\<close>

lemma main_loop_Raised_append:
  "main_loop es l w = Raised e w' \<Longrightarrow> main_loop (es @ es2) l w = Raised e w'"
  by (simp add: main_loop_append and_then_def)

lemma main_Raised_append:
  assumes "main es w = Raised e w'"
  shows "main (es @ es2) w = Raised e w'"
  using assms
  by (auto simp: main_def Let_def and_then_Raised_iff and_then_Ok_iff
      dest: main_loop_Raised_append)

lemma cleanup_facts:
  "trace (cleanup w) = trace w @ [Log INFO ''End of session'', StopPreview, GpioCleanup, SysExit]"
  "preview (cleanup w) = False"
  by (simp_all add: cleanup_def logging_def emit_def)

text \<open>
  Claim C9. Whatever exception leaves \<open>main\<close>, it is the operator's interrupt or an
  exception of class \<open>Exception\<close>; an exception raised in an iteration of the loop ends
  the loop, whatever edges would follow. The handler around \<open>main\<close> logs the interrupt as
  a warning, and any other exception as an error with its message; in both cases it then
  logs the end of the session, stops the preview, releases the GPIO pins and exits. The
  process does not go back into the loop: edges after the exception change nothing.
\<close>

theorem top_level_handler:
  assumes "main es w = Raised e w1"
  shows "(e = KeyboardInterrupt \<or> (\<exists>msg. e = Exception msg))
       \<and> (\<exists>w2. run_main es w = Exited w2 \<and> \<not> preview w2
             \<and> (e = KeyboardInterrupt \<longrightarrow>
                  trace w2 = trace w1 @
                    [Log WARNING ''keyboard interrupt'',
                     Log INFO ''End of session'', StopPreview, GpioCleanup, SysExit])
             \<and> (\<forall>msg. e = Exception msg \<longrightarrow>
                  trace w2 = trace w1 @
                    [Log ERROR (''Unexpected error: '' @ msg),
                     Log INFO ''End of session'', StopPreview, GpioCleanup, SysExit]))
       \<and> run_main (es @ es2) w = run_main es w
       \<and> (main_body ed l0 w0 = Raised e0 w0' \<longrightarrow> main_loop (ed # es0) l0 w0 = Raised e0 w0')"
proof -
  have cls: "e \<noteq> SystemExit" using assms by (rule main_raises)
  then have a: "e = KeyboardInterrupt \<or> (\<exists>msg. e = Exception msg)"
    by (cases e) simp_all
  have b: "\<exists>w2. run_main es w = Exited w2 \<and> \<not> preview w2
             \<and> (e = KeyboardInterrupt \<longrightarrow>
                  trace w2 = trace w1 @
                    [Log WARNING ''keyboard interrupt'',
                     Log INFO ''End of session'', StopPreview, GpioCleanup, SysExit])
             \<and> (\<forall>msg. e = Exception msg \<longrightarrow>
                  trace w2 = trace w1 @
                    [Log ERROR (''Unexpected error: '' @ msg),
                     Log INFO ''End of session'', StopPreview, GpioCleanup, SysExit])"
    using cls assms
    by (cases e) (simp_all add: run_main_def cleanup_facts logging_def emit_def)
  have c: "run_main (es @ es2) w = run_main es w"
    using main_Raised_append[OF assms, of es2] assms by (simp add: run_main_def)
  have d: "main_body ed l0 w0 = Raised e0 w0' \<longrightarrow> main_loop (ed # es0) l0 w0 = Raised e0 w0'"
    by (simp add: and_then_def)
  show ?thesis using a b c d by blast
qed

lemma main_interrupted_demo:
  "main [Interrupted] demo_world = Raised KeyboardInterrupt idle_world"
  by (simp add: idle_world_def main_def overlay_image_def Let_def and_then_def emit_def
      logging_def demo_world_def demo_env_simps path_join_def demo_images_simps main_body_def)

lemma main_no_assets:
  "main es no_assets_world =
     Raised (Exception ''IOError'')
       (no_assets_world\<lparr>preview := True,
          trace := [Log INFO ''Main program started'', StartPreview]\<rparr>)"
  by (simp add: no_assets_world_def main_def overlay_image_def Let_def and_then_def emit_def
      logging_def demo_world_def)

theorem top_level_handler_witness:
  "main [Interrupted] demo_world = Raised KeyboardInterrupt idle_world
   \<and> is_Running (run_main [] demo_world)
   \<and> \<not> is_Running (run_main [Interrupted] demo_world)
   \<and> trace (state_of (run_main [Interrupted] demo_world)) =
       trace idle_world @
       [Log WARNING ''keyboard interrupt'', Log INFO ''End of session'', StopPreview,
        GpioCleanup, SysExit]
   \<and> run_main [Interrupted, Detected] demo_world = run_main [Interrupted] demo_world
   \<and> trace (state_of (run_main [] no_assets_world)) =
       [Log INFO ''Main program started'', StartPreview,
        Log ERROR ''Unexpected error: IOError'', Log INFO ''End of session'', StopPreview,
        GpioCleanup, SysExit]"
proof -
  note h = main_interrupted_demo
  have r: "is_Running (run_main [] demo_world)"
    by (simp add: run_main_def main_demo)
  note t = top_level_handler[OF h, where ?es2.0 = "[Detected]"]
  from conjunct1[OF conjunct2[OF t]] obtain w2 where
    a: "run_main [Interrupted] demo_world = Exited w2"
    and "\<not> preview w2"
    and b: "KeyboardInterrupt = KeyboardInterrupt \<longrightarrow>
              trace w2 = trace idle_world @
                [Log WARNING ''keyboard interrupt'',
                 Log INFO ''End of session'', StopPreview, GpioCleanup, SysExit]"
    and "\<forall>msg. KeyboardInterrupt = Exception msg \<longrightarrow>
              trace w2 = trace idle_world @
                [Log ERROR (''Unexpected error: '' @ msg),
                 Log INFO ''End of session'', StopPreview, GpioCleanup, SysExit]"
    by (elim conjE exE)
  have c: "run_main ([Interrupted] @ [Detected]) demo_world = run_main [Interrupted] demo_world"
    by (rule conjunct1[OF conjunct2[OF conjunct2[OF t]]])
  note g = main_no_assets[of "[]"]
  note t' = top_level_handler[OF g]
  from conjunct1[OF conjunct2[OF t']] obtain w3 where
    d: "run_main [] no_assets_world = Exited w3"
    and "\<not> preview w3"
    and "Exception ''IOError'' = KeyboardInterrupt \<longrightarrow>
              trace w3 = trace (no_assets_world\<lparr>preview := True,
                 trace := [Log INFO ''Main program started'', StartPreview]\<rparr>) @
                [Log WARNING ''keyboard interrupt'',
                 Log INFO ''End of session'', StopPreview, GpioCleanup, SysExit]"
    and e: "\<forall>msg. Exception ''IOError'' = Exception msg \<longrightarrow>
              trace w3 = trace (no_assets_world\<lparr>preview := True,
                 trace := [Log INFO ''Main program started'', StartPreview]\<rparr>) @
                [Log ERROR (''Unexpected error: '' @ msg),
                 Log INFO ''End of session'', StopPreview, GpioCleanup, SysExit]"
    by (elim conjE exE)
  have e': "trace w3 = [Log INFO ''Main program started'', StartPreview,
        Log ERROR ''Unexpected error: IOError'', Log INFO ''End of session'', StopPreview,
        GpioCleanup, SysExit]"
    using e by simp
  show ?thesis using h r a b c d e' by simp
qed

section \<open>The start of the process\<close>

text \<open>When both intro images can be read, \<open>main\<close> reaches its loop.\<close>

lemma main_start:
  assumes "images w (path_join (script_dir (env w)) ''Assets/intro_1.png'') = Some s1"
    and "images w (path_join (script_dir (env w)) ''Assets/intro_2.png'') = Some s2"
  shows "\<exists>w3. (\<forall>es. main es w =
                  main_loop es \<lparr>i = 0, intro_image_1 = Overlay (next_handle w),
                                 intro_image_2 = Overlay (Suc (next_handle w))\<rparr> w3)
            \<and> Suc (next_handle w) \<in> handle ` set (overlays w3)
            \<and> preview w3
            \<and> live w3 = live w @ [next_handle w, Suc (next_handle w)]"
proof -
  define w3 where "w3 =
    w\<lparr>preview := True,
      overlays := overlays w @
        [\<lparr>handle = next_handle w,
          source = path_join (script_dir (env w)) ''Assets/intro_1.png'',
          buffer = pad_size s1, window = s1, layer = 3, oid = 3,
          alpha = default_alpha (env w)\<rparr>,
         \<lparr>handle = Suc (next_handle w),
          source = path_join (script_dir (env w)) ''Assets/intro_2.png'',
          buffer = pad_size s2, window = s2, layer = 4, oid = 4,
          alpha = default_alpha (env w)\<rparr>],
      next_handle := Suc (Suc (next_handle w)),
      trace := trace w @
        [Log INFO ''Main program started'', StartPreview,
         AddOverlay (next_handle w) (path_join (script_dir (env w)) ''Assets/intro_1.png'')
           (pad_size s1) s1,
         Log INFO ''Created overlay Assets/intro_1.png'',
         AddOverlay (Suc (next_handle w)) (path_join (script_dir (env w)) ''Assets/intro_2.png'')
           (pad_size s2) s2,
         Log INFO ''Created overlay Assets/intro_2.png'']\<rparr>"
  have m: "\<forall>es. main es w =
                  main_loop es \<lparr>i = 0, intro_image_1 = Overlay (next_handle w),
                                 intro_image_2 = Overlay (Suc (next_handle w))\<rparr> w3"
    using assms
    by (simp add: main_def overlay_image_def Let_def and_then_def emit_def logging_def w3_def)
  have f: "Suc (next_handle w) \<in> handle ` set (overlays w3)" "preview w3"
    "live w3 = live w @ [next_handle w, Suc (next_handle w)]"
    by (simp_all add: w3_def live_def)
  show ?thesis using m f by blast
qed

text \<open>
  Claim C4, amended. If the button reads pressed when the process starts, the process
  exits at the guard, whatever edges would come: the LED pin is set up and the exit is
  logged, and nothing else happens, so the loop is not entered, no overlay is created and
  the preview is not started. If the button reads not pressed, and the camera is there and
  both intro images can be read, then \<open>main\<close> starts the preview, shows the two intro
  overlays and waits in its loop with the counter at 0, and it stays in the loop for any
  number of polls without an edge.
\<close>

theorem startup_guard:
  "(button_low (env w) \<longrightarrow>
      program es w =
        Exited (w\<lparr>led := False,
                  trace := trace w @
                    [GpioSetup, Log INFO ''Exiting - the button was pressed during startup'',
                     SysExit]\<rparr>))
   \<and> (\<not> button_low (env w) \<and> camera_present (env w)
        \<and> images w (path_join (script_dir (env w)) ''Assets/intro_1.png'') \<noteq> None
        \<and> images w (path_join (script_dir (env w)) ''Assets/intro_2.png'') \<noteq> None \<longrightarrow>
      (\<exists>l0 w0. program [] w = Running l0 w0 \<and> i l0 = 0 \<and> preview w0
                \<and> live w0 = live w @ [next_handle w, Suc (next_handle w)])
      \<and> (\<forall>k. \<exists>l1 w1. program (replicate k Timeout) w = Running l1 w1
                      \<and> i l1 = int (k mod 20)))"
proof -
  have a: "button_low (env w) \<longrightarrow>
      program es w =
        Exited (w\<lparr>led := False,
                  trace := trace w @
                    [GpioSetup, Log INFO ''Exiting - the button was pressed during startup'',
                     SysExit]\<rparr>)"
    by (simp add: program_def Let_def emit_def logging_def)
  have b: "(\<exists>l0 w0. program [] w = Running l0 w0 \<and> i l0 = 0 \<and> preview w0
                \<and> live w0 = live w @ [next_handle w, Suc (next_handle w)])
      \<and> (\<forall>k. \<exists>l1 w1. program (replicate k Timeout) w = Running l1 w1
                      \<and> i l1 = int (k mod 20))"
    if nb: "\<not> button_low (env w)" and cam: "camera_present (env w)"
      and i1: "images w (path_join (script_dir (env w)) ''Assets/intro_1.png'') \<noteq> None"
      and i2: "images w (path_join (script_dir (env w)) ''Assets/intro_2.png'') \<noteq> None"
  proof -
    define v where "v = emit [CameraInit] (emit [GpioSetup] (w\<lparr>led := False\<rparr>))"
    have p: "program es' w = run_main es' v" for es'
      using nb cam by (simp add: program_def Let_def emit_def v_def)
    have v: "next_handle v = next_handle w" "live v = live w"
      by (simp_all add: v_def emit_def live_def)
    from i1 i2 obtain s1 s2 where
      "images v (path_join (script_dir (env v)) ''Assets/intro_1.png'') = Some s1"
      "images v (path_join (script_dir (env v)) ''Assets/intro_2.png'') = Some s2"
      by (auto simp: v_def emit_def)
    from main_start[OF this] obtain w3 where
      m: "\<And>es'. main es' v =
            main_loop es'
              \<lparr>i = 0, intro_image_1 = Overlay (next_handle v),
               intro_image_2 = Overlay (Suc (next_handle v))\<rparr> w3"
      and h: "Suc (next_handle v) \<in> handle ` set (overlays w3)"
      and pv: "preview w3"
      and lv: "live w3 = live v @ [next_handle v, Suc (next_handle v)]"
      by blast
    define l0 where "l0 = \<lparr>i = 0, intro_image_1 = Overlay (next_handle v),
               intro_image_2 = Overlay (Suc (next_handle v))\<rparr>"
    have l0: "i l0 = int 0" "intro_image_2 l0 = Overlay (Suc (next_handle v))"
      by (simp_all add: l0_def)
    have first: "program [] w = Running l0 w3"
      unfolding p by (simp add: run_main_def m l0_def)
    have run: "\<exists>l1 w1. program (replicate k Timeout) w = Running l1 w1 \<and> i l1 = int (k mod 20)"
      for k
    proof -
      from idle_run[OF l0(1) _ l0(2) h, of k] obtain w1 where
        r: "main_loop (replicate k Timeout) l0 w3 = Ok (l0\<lparr>i := int (k mod 20)\<rparr>) w1"
        by auto
      have "program (replicate k Timeout) w = Running (l0\<lparr>i := int (k mod 20)\<rparr>) w1"
        unfolding p using r by (simp add: run_main_def m l0_def)
      then show ?thesis by simp
    qed
    show ?thesis
      using first run pv lv v l0(1) by auto
  qed
  show ?thesis using a b by blast
qed

text \<open>
  Claim C4 as stated lets the start reach the idle loop whenever the button reads not
  pressed. It does not when the camera cannot be opened (the process exits at the second
  guard), nor when an intro image cannot be read (the exception ends \<open>main\<close> before the
  loop).
\<close>

theorem startup_not_pressed_counterexample:
  "\<not> button_low (env no_camera_world)
   \<and> program [] no_camera_world =
       Exited (no_camera_world\<lparr>led := False,
                 trace := [GpioSetup, Log ERROR ''Error initializing the camera'', SysExit]\<rparr>)
   \<and> \<not> button_low (env no_assets_world)
   \<and> camera_present (env no_assets_world)
   \<and> program [] no_assets_world =
       Exited (no_assets_world\<lparr>led := False, preview := False,
                 trace := [GpioSetup, CameraInit, Log INFO ''Main program started'',
                           StartPreview, Log ERROR ''Unexpected error: IOError'',
                           Log INFO ''End of session'', StopPreview, GpioCleanup, SysExit]\<rparr>)"
  by (simp add: no_camera_world_def no_assets_world_def demo_world_def demo_env_def
      program_def run_main_def main_def overlay_image_def cleanup_def Let_def emit_def
      logging_def and_then_def)

theorem startup_guard_witness:
  "button_low (env stuck_button_world)
   \<and> program [Detected] stuck_button_world =
       Exited (stuck_button_world\<lparr>led := False,
                 trace := [GpioSetup, Log INFO ''Exiting - the button was pressed during startup'',
                           SysExit]\<rparr>)
   \<and> \<not> button_low (env demo_world) \<and> camera_present (env demo_world)
   \<and> images demo_world (path_join (script_dir (env demo_world)) ''Assets/intro_1.png'') \<noteq> None
   \<and> images demo_world (path_join (script_dir (env demo_world)) ''Assets/intro_2.png'') \<noteq> None
   \<and> is_Running (program [] demo_world)
   \<and> is_Running (program (replicate 3 Timeout) demo_world)
   \<and> i (locals_of (program (replicate 3 Timeout) demo_world)) = 3"
proof -
  have s: "button_low (env stuck_button_world)" "trace stuck_button_world = []"
    by (simp_all add: stuck_button_world_def demo_world_def demo_env_def)
  have d: "\<not> button_low (env demo_world)" "camera_present (env demo_world)"
    "images demo_world (path_join (script_dir (env demo_world)) ''Assets/intro_1.png'') \<noteq> None"
    "images demo_world (path_join (script_dir (env demo_world)) ''Assets/intro_2.png'') \<noteq> None"
    by (simp_all add: demo_world_def demo_env_def path_join_def demo_images_simps)
  note t1 = startup_guard[of stuck_button_world "[Detected]"]
  have a: "program [Detected] stuck_button_world =
       Exited (stuck_button_world\<lparr>led := False,
                 trace := [GpioSetup, Log INFO ''Exiting - the button was pressed during startup'',
                           SysExit]\<rparr>)"
    using conjunct1[OF t1] s by simp
  note t2 = conjunct2[OF startup_guard[of demo_world "[]"], rule_format, OF conjI[OF d(1) conjI[OF d(2) conjI[OF d(3) d(4)]]]]
  from conjunct1[OF t2] obtain l0 w0 where b: "program [] demo_world = Running l0 w0"
    by blast
  from spec[OF conjunct2[OF t2], of 3] obtain l1 w1 where
    c: "program (replicate 3 Timeout) demo_world = Running l1 w1" "i l1 = int (3 mod 20)"
    by blast
  show ?thesis using s(1) a d b c by simp
qed

section \<open>The idle state\<close>

text \<open>
  The idle state, in which a session starts: the two intro overlays held in the variables
  of \<open>main\<close> are the only overlays on screen. A process that starts with an empty screen
  reaches this state (when the intro images can be read, see \<open>main_start\<close>), polls without
  an edge keep it, and a session that returns restores it.
\<close>

lemma idle_state_kept:
  assumes "main_body Timeout l w = Ok l1 w1"
  shows "live w1 = live w \<and> intro_image_1 l1 = intro_image_1 l
       \<and> intro_image_2 l1 = intro_image_2 l"
proof -
  have m: "map handle (map (\<lambda>x. if handle x = h then x\<lparr>alpha := a\<rparr> else x) ovs) = map handle ovs"
    for h a and ovs :: "overlay list"
    by (induction ovs) simp_all
  have sa: "set_alpha v a w = Ok u w2 \<Longrightarrow> live w2 = live w" for v a u w2
    by (auto simp: set_alpha_def live_def emit_def m split: pyval.splits if_splits)
  show ?thesis
    using assms
    by (auto simp: main_body_def Let_def and_then_Ok_iff sleep_def gpio_output_def emit_def
        live_def split: if_splits dest!: sa)
qed

end
